theory Spec2Isabelle
  imports Main
begin

section \<open>Kernel preferences and the kernel-spec catalog\<close>

text \<open>
  The data of \<^verbatim>\<open>packages/apputils/src/sessioncontext.tsx\<close>. An optional field of a
  TypeScript interface (\<^verbatim>\<open>name?: string\<close>) is an \<open>option\<close>: \<open>None\<close> is
  \<^verbatim>\<open>undefined\<close>. The code tests such fields in two ways, and the model keeps them
  apart: \<^verbatim>\<open>x === false\<close> is \<open>x = Some False\<close>, and the truthiness tests
  \<^verbatim>\<open>!x\<close>, \<^verbatim>\<open>x ? a : b\<close> are \<open>truthy\<close> below (for a string:
  defined and not empty; for a boolean: defined and true).
\<close>

record IKernelPreference =
  pref_name :: "string option"
  pref_language :: "string option"
  pref_id :: "string option"
  shouldStart :: "bool option"
  canStart :: "bool option"
  shutdownOnDispose :: "bool option"
  autoStartDefault :: "bool option"

text \<open>The preference \<^verbatim>\<open>{}\<close>: no field is set.\<close>

definition emptyPreference :: IKernelPreference where
  "emptyPreference =
     \<lparr>pref_name = None, pref_language = None, pref_id = None, shouldStart = None,
      canStart = None, shutdownOnDispose = None, autoStartDefault = None\<rparr>"

record ISpecModel =
  display_name :: string
  spec_language :: string

text \<open>
  \<^verbatim>\<open>KernelSpec.ISpecModels\<close>: the default kernel name and the object
  \<^verbatim>\<open>kernelspecs\<close>, here the list of its entries in the order in which
  \<^verbatim>\<open>for (let specName in specs.kernelspecs)\<close> visits its keys. The keys of an
  object are distinct.
\<close>

record ISpecModels =
  specs_default :: string
  kernelspecs :: "(string \<times> ISpecModel) list"

text \<open>\<^verbatim>\<open>Kernel.IModel\<close> and \<^verbatim>\<open>Session.IModel\<close>, as far as the code reads them.\<close>

record KernelModel =
  km_id :: "string option"
  km_name :: "string option"

record SessionModel =
  m_path :: string
  m_name :: string
  m_type :: string
  m_kernel :: KernelModel

record IKernelSearch =
  ks_specs :: "ISpecModels option"
  ks_preference :: IKernelPreference
  ks_sessions :: "SessionModel list option"

definition truthy :: "string option \<Rightarrow> bool" where
  "truthy s = (case s of None \<Rightarrow> False | Some v \<Rightarrow> v \<noteq> [])"

definition truthyB :: "bool option \<Rightarrow> bool" where
  "truthyB b = (b = Some True)"

text \<open>The keys of \<^verbatim>\<open>specs.kernelspecs\<close> in iteration order.\<close>

definition specNames :: "ISpecModels \<Rightarrow> string list" where
  "specNames specs = map fst (kernelspecs specs)"

text \<open>
  \<^verbatim>\<open>language === specs.kernelspecs[specName].language\<close>: the left side may be
  \<^verbatim>\<open>undefined\<close>, the right side is the string of the entry found under the key.
\<close>

definition languageMatches :: "ISpecModels \<Rightarrow> string option \<Rightarrow> string \<Rightarrow> bool" where
  "languageMatches specs language specName =
     (case map_of (kernelspecs specs) specName of
        None \<Rightarrow> False
      | Some spec \<Rightarrow> language = Some (spec_language spec))"

text \<open>
  \<^verbatim>\<open>Private.getDefaultKernel\<close> (which \<^verbatim>\<open>SessionContext.getDefaultKernel\<close>
  calls). The result \<^verbatim>\<open>string | null\<close> is a \<open>string option\<close>. The first loop
  returns \<^verbatim>\<open>name\<close> at the first key equal to it; the second collects in
  \<^verbatim>\<open>matches\<close> the keys whose entry has the preferred language.
\<close>

definition getDefaultKernel :: "IKernelSearch \<Rightarrow> string option" where
  "getDefaultKernel options =
     (case ks_specs options of
        None \<Rightarrow> None
      | Some specs \<Rightarrow>
          let preference = ks_preference options;
              name = pref_name preference;
              language = pref_language preference
          in
          if shouldStart preference = Some False \<or> canStart preference = Some False then None
          else
            let defaultName =
                  (if truthyB (autoStartDefault preference) then Some (specs_default specs)
                   else None)
            in
            if \<not> truthy name \<and> \<not> truthy language then defaultName
            else if find (\<lambda>specName. Some specName = name) (specNames specs) \<noteq> None then name
            else if \<not> truthy language then defaultName
            else
              let matches = filter (languageMatches specs language) (specNames specs) in
              if length matches = 1 then Some (matches ! 0) else defaultName)"

text \<open>The fallback of the resolver: the catalog's default when \<^verbatim>\<open>autoStartDefault\<close> is truthy.\<close>

definition fallback :: "ISpecModels \<Rightarrow> IKernelPreference \<Rightarrow> string option" where
  "fallback specs preference =
     (if autoStartDefault preference = Some True then Some (specs_default specs) else None)"

text \<open>The catalog entries whose language is the given one.\<close>

definition entriesWithLanguage :: "ISpecModels \<Rightarrow> string \<Rightarrow> (string \<times> ISpecModel) list" where
  "entriesWithLanguage specs l = filter (\<lambda>e. spec_language (snd e) = l) (kernelspecs specs)"

text \<open>The catalog of the examples: default \<^verbatim>\<open>python3\<close>, specs python3, python2 and ir.\<close>

definition catalog3 :: ISpecModels where
  "catalog3 =
     \<lparr>specs_default = ''python3'',
      kernelspecs =
        [(''python3'', \<lparr>display_name = ''Python 3'', spec_language = ''python''\<rparr>),
         (''python2'', \<lparr>display_name = ''Python 2'', spec_language = ''python''\<rparr>),
         (''ir'', \<lparr>display_name = ''R'', spec_language = ''r''\<rparr>)]\<rparr>"


section \<open>Connections, signals and the state of a session context\<close>

datatype Status =
  Unknown | Starting | Idle | Busy | Terminating | Restarting | Autorestarting | Dead

datatype ConnectionStatus = Connected | Connecting | Disconnected

text \<open>
  Session and kernel connections are objects shared between the context and the session
  service: the model keeps them in two stores and refers to them by address, so that a
  change made by the service is seen by the context at its next read.
\<close>

type_synonym sid = nat
type_synonym kid = nat

record IKernelConnection =
  k_id :: string
  k_name :: string
  k_status :: Status
  k_isDisposed :: bool

record ISessionConnection =
  s_path :: string
  s_name :: string
  s_type :: string
  s_kernel :: "kid option"
  s_isDisposed :: bool

datatype Property = Path | Name | Type

text \<open>The signals of a session connection to which \<^verbatim>\<open>_handleNewSession\<close> connects a slot.\<close>

datatype Channel =
  ChDisposed | ChPropertyChanged | ChKernelChanged | ChStatusChanged
  | ChConnectionStatusChanged | ChIopubMessage | ChUnhandledMessage

text \<open>What a session connection emits on these signals.\<close>

datatype SessionEvent =
  EvDisposed
  | EvPropertyChanged Property
  | EvKernelChanged "kid option" "kid option"
  | EvStatusChanged Status
  | EvConnectionStatusChanged ConnectionStatus
  | EvIopubMessage string
  | EvUnhandledMessage string

text \<open>The signals the context itself emits (\<^verbatim>\<open>_sessionChanged\<close> is never emitted).\<close>

datatype Signal =
  KernelChanged "kid option" "kid option"
  | StatusChanged Status
  | ConnectionStatusChanged ConnectionStatus
  | IopubMessage string
  | UnhandledMessage string
  | PropertyChanged Property
  | DisposedSignal
  | Terminated

datatype Error =
  Disposed
  | SessionAlreadyDisposed
  | ClientSessionDisposed
  | NoKernelToRestart
  | TypeError
  | ResponseError string
  | IllTyped

text \<open>
  Every call the context makes on a collaborator, and every signal it emits, is appended to
  a trace: \<^verbatim>\<open>session.dispose()\<close>, the fire-and-forget
  \<^verbatim>\<open>session.shutdown()\<close> of \<^verbatim>\<open>dispose\<close>, \<^verbatim>\<open>signal.connect\<close>,
  \<^verbatim>\<open>dialog.dispose()\<close>, \<^verbatim>\<open>this._setBusy()\<close> and the
  \<^verbatim>\<open>dispose()\<close> of the disposable it returned, \<^verbatim>\<open>this._ready.resolve\<close>,
  the error dialog of \<^verbatim>\<open>_handleSessionError\<close>, \<^verbatim>\<open>Signal.clearData(this)\<close>.
\<close>

datatype Effect =
  Emit Signal
  | ConnectSlot sid Channel
  | SessionDispose sid
  | SessionShutdown sid
  | DialogDispose
  | LeaseAcquire nat
  | LeaseDispose nat
  | ReadyResolve
  | ShowError Error
  | ClearData

datatype Dialog = SelectDialog bool

text \<open>
  The private fields of \<^verbatim>\<open>SessionContext\<close> (\<^verbatim>\<open>_path\<close> is \<open>cpath\<close>,
  \<^verbatim>\<open>_isDisposed\<close> is \<open>isDisposed\<close>, and so on; \<open>ready\<close> says whether
  \<^verbatim>\<open>_ready\<close> is resolved; \<open>setBusy\<close> says whether the option
  \<^verbatim>\<open>setBusy\<close> was given), then \<open>slots\<close>, the connections from signals of
  session connections to the slots of this context, then the collaborators as the context
  reads them: the two stores, \<^verbatim>\<open>sessionManager.running()\<close>, the outcome of
  \<^verbatim>\<open>sessionManager.connectTo\<close>, \<^verbatim>\<open>specsManager.specs\<close>, and the number of
  the disposable the next call of \<^verbatim>\<open>setBusy\<close> returns.
\<close>

record World =
  cpath :: string
  cname :: string
  ctype :: string
  prevKernelName :: "string option"
  kernelPreference :: IKernelPreference
  isDisposed :: bool
  session :: "sid option"
  ready :: bool
  initializing :: bool
  isReady :: bool
  dialog :: "Dialog option"
  setBusy :: bool
  busyDisposable :: "nat option"
  slots :: "(sid \<times> Channel) list"
  sessionObj :: "sid \<Rightarrow> ISessionConnection"
  kernelObj :: "kid \<Rightarrow> IKernelConnection"
  managerRunning :: "SessionModel list"
  connectTo :: "SessionModel \<Rightarrow> Error + sid"
  managerSpecs :: "ISpecModels option"
  nextLease :: nat
  trace :: "Effect list"

record IOptions =
  o_path :: "string option"
  o_name :: "string option"
  o_type :: "string option"
  o_kernelPreference :: "IKernelPreference option"
  o_setBusy :: bool

text \<open>
  The constructor, with the field initialisers of the class. \<open>uuid\<close> is the value of
  \<^verbatim>\<open>UUID.uuid4()\<close>; \<open>env\<close> gives the collaborators.
\<close>

definition construct :: "IOptions \<Rightarrow> string \<Rightarrow> World \<Rightarrow> World" where
  "construct options uuid env =
     env\<lparr>cpath := (case o_path options of Some p \<Rightarrow> p | None \<Rightarrow> uuid),
         ctype := (case o_type options of Some t \<Rightarrow> t | None \<Rightarrow> []),
         cname := (case o_name options of Some n \<Rightarrow> n | None \<Rightarrow> []),
         setBusy := o_setBusy options,
         kernelPreference :=
           (case o_kernelPreference options of Some p \<Rightarrow> p | None \<Rightarrow> emptyPreference),
         prevKernelName := Some [],
         isDisposed := False,
         session := None,
         ready := False,
         initializing := False,
         isReady := False,
         dialog := None,
         busyDisposable := None,
         slots := [],
         trace := []\<rparr>"

definition effect :: "Effect \<Rightarrow> World \<Rightarrow> World" where
  "effect e w = w\<lparr>trace := trace w @ [e]\<rparr>"

definition emit :: "Signal \<Rightarrow> World \<Rightarrow> World" where
  "emit sig w = effect (Emit sig) w"

text \<open>
  \<^verbatim>\<open>signal.connect(slot, this)\<close>: the connection is added unless it is there already.
\<close>

definition connectSlot :: "sid \<Rightarrow> Channel \<Rightarrow> World \<Rightarrow> World" where
  "connectSlot s ch w =
     effect (ConnectSlot s ch)
       (if (s, ch) \<in> set (slots w) then w else w\<lparr>slots := slots w @ [(s, ch)]\<rparr>)"

text \<open>
  Modelled from the spec: \<^verbatim>\<open>dispose()\<close> of a session connection, which belongs to
  the services package and is missing here. It detaches the connection: the connection
  and its kernel connection are disposed (the comment in \<^verbatim>\<open>_handleNewSession\<close>
  says: any existing kernel connection was disposed when the session was disposed) and
  every slot connected to its signals is disconnected.
\<close>

definition sessionDispose :: "sid \<Rightarrow> World \<Rightarrow> World" where
  "sessionDispose s w =
     effect (SessionDispose s)
       (w\<lparr>sessionObj := (sessionObj w)(s := (sessionObj w s)\<lparr>s_isDisposed := True\<rparr>),
          kernelObj :=
            (case s_kernel (sessionObj w s) of
               None \<Rightarrow> kernelObj w
             | Some k \<Rightarrow> (kernelObj w)(k := (kernelObj w k)\<lparr>k_isDisposed := True\<rparr>)),
          slots := filter (\<lambda>c. fst c \<noteq> s) (slots w)\<rparr>)"

text \<open>
  Modelled from the spec: \<^verbatim>\<open>Signal.clearData(this)\<close>, of the signaling library,
  closes all channels of the context, so that no further event is delivered: every
  connection to one of its slots is removed.
\<close>

definition clearData :: "World \<Rightarrow> World" where
  "clearData w = effect ClearData (w\<lparr>slots := []\<rparr>)"

text \<open>\<^verbatim>\<open>this.session?.kernel\<close>.\<close>

definition sessionKernel :: "World \<Rightarrow> kid option" where
  "sessionKernel w = (case session w of None \<Rightarrow> None | Some s \<Rightarrow> s_kernel (sessionObj w s))"

subsection \<open>The slots\<close>

definition priv_onSessionDisposed :: "World \<Rightarrow> World" where
  "priv_onSessionDisposed w =
     (let w1 = (case session w of Some s \<Rightarrow> sessionDispose s w | None \<Rightarrow> w)
      in emit Terminated (w1\<lparr>session := None\<rparr>))"

fun priv_onPropertyChanged :: "sid \<Rightarrow> Property \<Rightarrow> World \<Rightarrow> World" where
  "priv_onPropertyChanged sender Path w =
     emit (PropertyChanged Path) (w\<lparr>cpath := s_path (sessionObj w sender)\<rparr>)"
| "priv_onPropertyChanged sender Name w =
     emit (PropertyChanged Name) (w\<lparr>cname := s_name (sessionObj w sender)\<rparr>)"
| "priv_onPropertyChanged sender Type w =
     emit (PropertyChanged Type) (w\<lparr>ctype := s_type (sessionObj w sender)\<rparr>)"

definition priv_onKernelChanged :: "sid \<Rightarrow> kid option \<Rightarrow> kid option \<Rightarrow> World \<Rightarrow> World" where
  "priv_onKernelChanged sender oldValue newValue w = emit (KernelChanged oldValue newValue) w"

text \<open>\<^verbatim>\<open>this._busyDisposable = this._setBusy()\<close>.\<close>

definition callSetBusy :: "World \<Rightarrow> World" where
  "callSetBusy w =
     effect (LeaseAcquire (nextLease w))
       (w\<lparr>busyDisposable := Some (nextLease w), nextLease := Suc (nextLease w)\<rparr>)"

definition priv_onStatusChanged :: "sid \<Rightarrow> Status \<Rightarrow> World \<Rightarrow> World" where
  "priv_onStatusChanged sender status w =
     (let w1 =
        (if setBusy w then
           (if status = Busy then
              (if busyDisposable w = None then callSetBusy w else w)
            else
              (case busyDisposable w of
                 Some d \<Rightarrow> (effect (LeaseDispose d) w)\<lparr>busyDisposable := None\<rparr>
               | None \<Rightarrow> w))
         else w)
      in emit (StatusChanged status) w1)"

definition priv_onConnectionStatusChanged :: "sid \<Rightarrow> ConnectionStatus \<Rightarrow> World \<Rightarrow> World" where
  "priv_onConnectionStatusChanged sender status w = emit (ConnectionStatusChanged status) w"

definition priv_onIopubMessage :: "sid \<Rightarrow> string \<Rightarrow> World \<Rightarrow> World" where
  "priv_onIopubMessage sender message w = emit (IopubMessage message) w"

definition priv_onUnhandledMessage :: "sid \<Rightarrow> string \<Rightarrow> World \<Rightarrow> World" where
  "priv_onUnhandledMessage sender message w = emit (UnhandledMessage message) w"

text \<open>
  The delivery of an event of a session connection: the slot that
  \<^verbatim>\<open>_handleNewSession\<close> connected to the signal runs if the connection is still
  there, and nothing happens otherwise.
\<close>

fun channelOf :: "SessionEvent \<Rightarrow> Channel" where
  "channelOf EvDisposed = ChDisposed"
| "channelOf (EvPropertyChanged p) = ChPropertyChanged"
| "channelOf (EvKernelChanged a b) = ChKernelChanged"
| "channelOf (EvStatusChanged st) = ChStatusChanged"
| "channelOf (EvConnectionStatusChanged st) = ChConnectionStatusChanged"
| "channelOf (EvIopubMessage m) = ChIopubMessage"
| "channelOf (EvUnhandledMessage m) = ChUnhandledMessage"

fun slot :: "sid \<Rightarrow> SessionEvent \<Rightarrow> World \<Rightarrow> World" where
  "slot sender EvDisposed w = priv_onSessionDisposed w"
| "slot sender (EvPropertyChanged p) w = priv_onPropertyChanged sender p w"
| "slot sender (EvKernelChanged a b) w = priv_onKernelChanged sender a b w"
| "slot sender (EvStatusChanged st) w = priv_onStatusChanged sender st w"
| "slot sender (EvConnectionStatusChanged st) w = priv_onConnectionStatusChanged sender st w"
| "slot sender (EvIopubMessage m) w = priv_onIopubMessage sender m w"
| "slot sender (EvUnhandledMessage m) w = priv_onUnhandledMessage sender m w"

definition deliver :: "sid \<Rightarrow> SessionEvent \<Rightarrow> World \<Rightarrow> World" where
  "deliver sender ev w =
     (if (sender, channelOf ev) \<in> set (slots w) then slot sender ev w else w)"

subsection \<open>Disposal and the attachment of a session connection\<close>

definition dispose :: "World \<Rightarrow> World" where
  "dispose w =
     (if isDisposed w then w
      else
        let w1 = w\<lparr>isDisposed := True\<rparr>;
            w2 =
              (case session w1 of
                 Some s \<Rightarrow>
                   let w1a =
                         (if truthyB (shutdownOnDispose (kernelPreference w1))
                          then effect (SessionShutdown s) w1 else w1)
                   in (sessionDispose s w1a)\<lparr>session := None\<rparr>
               | None \<Rightarrow> w1);
            w3 = (case dialog w2 of Some d \<Rightarrow> effect DialogDispose w2 | None \<Rightarrow> w2);
            w4 =
              (case busyDisposable w3 of
                 Some d \<Rightarrow> (effect (LeaseDispose d) w3)\<lparr>busyDisposable := None\<rparr>
               | None \<Rightarrow> w3);
            w5 = emit DisposedSignal w4
        in clearData w5)"

definition sessionChannels :: "Channel list" where
  "sessionChannels =
     [ChDisposed, ChPropertyChanged, ChKernelChanged, ChStatusChanged,
      ChConnectionStatusChanged, ChIopubMessage, ChUnhandledMessage]"

text \<open>
  \<^verbatim>\<open>_handleNewSession\<close>: \<open>Inl\<close> is the error it throws, \<open>Inr\<close> the kernel
  connection it returns with the new state.
\<close>

definition priv_handleNewSession :: "sid \<Rightarrow> World \<Rightarrow> Error + (kid option \<times> World)" where
  "priv_handleNewSession s w =
     (if isDisposed w then Inl Disposed
      else
        let w1 = (case session w of Some old \<Rightarrow> sessionDispose old w | None \<Rightarrow> w);
            w2 = w1\<lparr>session := Some s,
                    prevKernelName :=
                      map_option (\<lambda>k. k_name (kernelObj w1 k)) (s_kernel (sessionObj w1 s))\<rparr>;
            w3 = fold (connectSlot s) sessionChannels w2;
            w4 = (if s_path (sessionObj w3 s) \<noteq> cpath w3
                  then priv_onPropertyChanged s Path w3 else w3);
            w5 = (if s_name (sessionObj w4 s) \<noteq> cname w4
                  then priv_onPropertyChanged s Name w4 else w4);
            w6 = (if s_type (sessionObj w5 s) \<noteq> ctype w5
                  then priv_onPropertyChanged s Type w5 else w5);
            w7 = emit (KernelChanged None (s_kernel (sessionObj w6 s))) w6
        in Inr (s_kernel (sessionObj w7 s), w7))"

text \<open>
  \<^verbatim>\<open>void this._handleSessionError(err)\<close> is not awaited: the handler runs on
  its own, and whether it succeeds is not seen by its caller. It reads the response of the
  error (and fails there when the error has none), then opens a dialog that it keeps in
  \<^verbatim>\<open>_dialog\<close> until the user closes it. The model records that the handler
  was started and leaves out the dialog.
\<close>

definition priv_handleSessionError :: "Error \<Rightarrow> World \<Rightarrow> World" where
  "priv_handleSessionError err w = effect (ShowError err) w"


section \<open>Asynchronous methods\<close>

text \<open>
  An \<^verbatim>\<open>async\<close> method runs until its first \<^verbatim>\<open>await\<close>, where it leaves the
  state it has reached and waits; it is resumed later with the answer, in the state of
  that later moment, which other code may have changed meanwhile. \<open>Await w q k\<close> is a
  method suspended in state \<open>w\<close> on the request \<open>q\<close>, with \<open>k\<close> what it does when
  resumed; \<open>Return\<close> and \<open>Throw\<close> are its promise fulfilled and rejected.
\<close>

record StartOptions =
  so_path :: string
  so_type :: string
  so_name :: string
  so_kernel :: KernelModel

datatype Request =
  ManagerReady
  | StartNew StartOptions
  | DialogLaunch bool
  | SessionShutdownRequest sid
  | SessionChangeKernel sid KernelModel
  | ReadyPromise
  | RestartDialog
  | KernelRestart kid
  | Tick

datatype Payload =
  PUnit
  | PSession sid
  | PKernel "kid option"
  | PDialog bool "KernelModel option"

datatype Response = Resolved Payload | Rejected Error

datatype 'a Proc =
  Return 'a World
  | Throw Error World
  | Await World Request "Response \<Rightarrow> World \<Rightarrow> 'a Proc"

text \<open>The state in which a method has stopped: at its end, or at the \<^verbatim>\<open>await\<close> it waits on.\<close>

primrec stateOf :: "'a Proc \<Rightarrow> World" where
  "stateOf (Return a w) = w"
| "stateOf (Throw e w) = w"
| "stateOf (Await w q k) = w"

text \<open>
  \<^verbatim>\<open>try { x = await p; f(x) } catch (e) { h(e) }\<close> for a call \<open>p\<close> of an
  \<^verbatim>\<open>async\<close> method of the context. When \<open>p\<close> has settled the caller is resumed in
  a later turn (\<open>Tick\<close>), so that other code can run in between.
\<close>

primrec tryAwait ::
  "'a Proc \<Rightarrow> ('a \<Rightarrow> World \<Rightarrow> 'b Proc) \<Rightarrow> (Error \<Rightarrow> World \<Rightarrow> 'b Proc) \<Rightarrow> 'b Proc" where
  "tryAwait (Return a w) f h = Await w Tick (\<lambda>r w'. f a w')"
| "tryAwait (Throw e w) f h = Await w Tick (\<lambda>r w'. h e w')"
| "tryAwait (Await w q k) f h = Await w q (\<lambda>r w'. tryAwait (k r w') f h)"

text \<open>\<^verbatim>\<open>x = await p; f(x)\<close> outside a \<^verbatim>\<open>try\<close>: a rejection of \<open>p\<close> rejects the caller.\<close>

definition await :: "'a Proc \<Rightarrow> ('a \<Rightarrow> World \<Rightarrow> 'b Proc) \<Rightarrow> 'b Proc" where
  "await p f = tryAwait p f Throw"

text \<open>
  Waiting on a promise of a collaborator whose value is not used
  (\<^verbatim>\<open>manager.ready\<close>, \<^verbatim>\<open>this._ready.promise\<close>, \<^verbatim>\<open>session.shutdown()\<close>,
  \<^verbatim>\<open>kernel.restart()\<close>).
\<close>

definition settle :: "'a \<Rightarrow> Response \<Rightarrow> World \<Rightarrow> 'a Proc" where
  "settle a r w = (case r of Resolved p \<Rightarrow> Return a w | Rejected e \<Rightarrow> Throw e w)"

definition shutdown :: "World \<Rightarrow> unit Proc" where
  "shutdown w =
     (case session w of
        None \<Rightarrow> Return () w
      | Some s \<Rightarrow> Await w (SessionShutdownRequest s) (settle ()))"

definition priv_startSession :: "KernelModel \<Rightarrow> World \<Rightarrow> (kid option) Proc" where
  "priv_startSession model w =
     (if isDisposed w then Throw ClientSessionDisposed w
      else
        Await w
          (StartNew \<lparr>so_path = cpath w, so_type = ctype w, so_name = cname w, so_kernel = model\<rparr>)
          (\<lambda>r w1.
             case r of
               Resolved (PSession s) \<Rightarrow>
                 (case priv_handleNewSession s w1 of
                    Inr (kconn, w2) \<Rightarrow> Return kconn w2
                  | Inl err \<Rightarrow> Throw err (priv_handleSessionError err w1))
             | Resolved other \<Rightarrow> Throw IllTyped (priv_handleSessionError IllTyped w1)
             | Rejected err \<Rightarrow> Throw err (priv_handleSessionError err w1)))"

text \<open>
  \<^verbatim>\<open>_changeKernel\<close>. \<^verbatim>\<open>session.kernel.status\<close> on a session connection whose
  kernel is \<^verbatim>\<open>null\<close> throws a \<^verbatim>\<open>TypeError\<close>. The promise of
  \<^verbatim>\<open>session.changeKernel(options)\<close> is returned without being awaited, so its
  rejection is not caught by the \<^verbatim>\<open>try\<close>.
\<close>

definition priv_changeKernel :: "KernelModel \<Rightarrow> World \<Rightarrow> (kid option) Proc" where
  "priv_changeKernel options w =
     (if isDisposed w then Throw Disposed w
      else
        case session w of
          Some s \<Rightarrow>
            (case s_kernel (sessionObj w s) of
               None \<Rightarrow> Throw TypeError w
             | Some k \<Rightarrow>
                 if k_status (kernelObj w k) \<noteq> Dead then
                   Await w (SessionChangeKernel s options)
                     (\<lambda>r w1.
                        case r of
                          Resolved (PKernel kconn) \<Rightarrow> Return kconn w1
                        | Resolved other \<Rightarrow> Throw IllTyped w1
                        | Rejected err \<Rightarrow> Throw err w1)
                 else priv_startSession options w)
        | None \<Rightarrow> priv_startSession options w)"

definition priv_selectKernel :: "bool \<Rightarrow> World \<Rightarrow> unit Proc" where
  "priv_selectKernel cancelable w =
     (if isDisposed w then Return () w
      else
        Await (w\<lparr>dialog := Some (SelectDialog cancelable)\<rparr>) (DialogLaunch cancelable)
          (\<lambda>r w1.
             case r of
               Resolved (PDialog accept model) \<Rightarrow>
                 let w2 = (effect DialogDispose w1)\<lparr>dialog := None\<rparr> in
                 if isDisposed w2 \<or> \<not> accept then Return () w2
                 else
                   (case model of
                      None \<Rightarrow>
                        if session w2 \<noteq> None
                        then await (shutdown w2) (\<lambda>u w3. Return () w3)
                        else Return () w2
                    | Some m \<Rightarrow> await (priv_changeKernel m w2) (\<lambda>kconn w3. Return () w3))
             | Resolved other \<Rightarrow> Throw IllTyped w1
             | Rejected err \<Rightarrow> Throw err w1))"

text \<open>
  \<^verbatim>\<open>_startIfNecessary\<close>. \<open>options\<close> stays \<^verbatim>\<open>undefined\<close> (\<open>None\<close>) when
  there is no preferred id and no default kernel name.
\<close>

definition priv_startIfNecessary :: "World \<Rightarrow> unit Proc" where
  "priv_startIfNecessary w =
     (let preference = kernelPreference w in
      if isDisposed w \<or> sessionKernel w \<noteq> None \<or> shouldStart preference = Some False
         \<or> canStart preference = Some False
      then Return () w
      else
        let options =
              (if truthy (pref_id preference)
               then Some \<lparr>km_id = pref_id preference, km_name = None\<rparr>
               else
                 let name =
                       getDefaultKernel
                         \<lparr>ks_specs = managerSpecs w, ks_preference = preference,
                          ks_sessions = Some (managerRunning w)\<rparr>
                 in if truthy name then Some \<lparr>km_id = None, km_name = name\<rparr> else None)
        in
        case options of
          Some opts \<Rightarrow>
            tryAwait (priv_changeKernel opts w) (\<lambda>kconn w1. Return () w1)
              (\<lambda>err w1. await (priv_selectKernel False w1) (\<lambda>u w2. Return () w2))
        | None \<Rightarrow> await (priv_selectKernel False w) (\<lambda>u w1. Return () w1))"

text \<open>
  \<^verbatim>\<open>initialize\<close>. A call that finds \<^verbatim>\<open>_initializing\<close> or
  \<^verbatim>\<open>_isReady\<close> set returns \<^verbatim>\<open>this._ready.promise\<close>: it waits on
  \<open>ReadyPromise\<close> and does nothing else. Any other call sets
  \<^verbatim>\<open>_initializing\<close> and waits for \<^verbatim>\<open>manager.ready\<close>;
  \<open>afterManagerReady\<close> is what it does from there: it attaches to the running session
  at its path, if there is one (\<open>outcome\<close> is \<open>Inl\<close> when \<^verbatim>\<open>connectTo\<close> or
  \<^verbatim>\<open>_handleNewSession\<close> throws), starts a session if necessary, sets
  \<^verbatim>\<open>_isReady\<close> and resolves \<^verbatim>\<open>this._ready\<close>.
\<close>

definition afterManagerReady :: "Response \<Rightarrow> World \<Rightarrow> unit Proc" where
  "afterManagerReady r w1 =
     (case r of
        Rejected err \<Rightarrow> Throw err w1
      | Resolved p \<Rightarrow>
          let outcome =
                (case find (\<lambda>item. m_path item = cpath w1) (managerRunning w1) of
                   Some model \<Rightarrow>
                     (case connectTo w1 model of
                        Inr s \<Rightarrow>
                          (case priv_handleNewSession s w1 of
                             Inr (kconn, w2) \<Rightarrow> Inr w2
                           | Inl err \<Rightarrow> Inl err)
                      | Inl err \<Rightarrow> Inl err)
                 | None \<Rightarrow> Inr w1)
          in
          (case outcome of
             Inl err \<Rightarrow> Throw err (priv_handleSessionError err w1)
           | Inr w2 \<Rightarrow>
               await (priv_startIfNecessary w2)
                 (\<lambda>u w3.
                    Return () (effect ReadyResolve (w3\<lparr>isReady := True, ready := True\<rparr>)))))"

definition initialize :: "World \<Rightarrow> unit Proc" where
  "initialize w =
     (if initializing w \<or> isReady w then Await w ReadyPromise (settle ())
      else Await (w\<lparr>initializing := True\<rparr>) ManagerReady afterManagerReady)"

definition changeKernel :: "KernelModel \<Rightarrow> World \<Rightarrow> (kid option) Proc" where
  "changeKernel options w =
     await (initialize w)
       (\<lambda>u w1. if isDisposed w1 then Throw Disposed w1 else priv_changeKernel options w1)"

definition selectKernel :: "World \<Rightarrow> unit Proc" where
  "selectKernel w =
     await (initialize w)
       (\<lambda>u w1. if isDisposed w1 then Throw Disposed w1 else priv_selectKernel True w1)"

text \<open>\<^verbatim>\<open>SessionContext.restartKernel\<close>: the confirmation dialog, then the restart.\<close>

definition restartKernel :: "kid \<Rightarrow> World \<Rightarrow> bool Proc" where
  "restartKernel kconn w =
     Await w RestartDialog
       (\<lambda>r w1.
          case r of
            Resolved (PDialog accept model) \<Rightarrow>
              if k_isDisposed (kernelObj w1 kconn) then Return False w1
              else if accept then Await w1 (KernelRestart kconn) (settle True)
              else Return False w1
          | Resolved other \<Rightarrow> Throw IllTyped w1
          | Rejected err \<Rightarrow> Throw err w1)"

definition restart :: "World \<Rightarrow> bool Proc" where
  "restart w =
     await (initialize w)
       (\<lambda>u w1.
          if isDisposed w1 then Throw SessionAlreadyDisposed w1
          else
            case sessionKernel w1 of
              Some kconn \<Rightarrow> restartKernel kconn w1
            | None \<Rightarrow>
                if truthy (prevKernelName w1) then
                  await (changeKernel \<lparr>km_id = None, km_name = prevKernelName w1\<rparr> w1)
                    (\<lambda>kconn w2. Return True w2)
                else Throw NoKernelToRestart w1)"

text \<open>
  One run of a method on its own: the answers to its requests are taken from a list, in
  order, and nothing else touches the state while it waits.
\<close>

datatype 'a Outcome = Fulfilled 'a World | RejectedWith Error World | Pending Request World

primrec run :: "'a Proc \<Rightarrow> Response list \<Rightarrow> 'a Outcome" where
  "run (Return a w) rs = Fulfilled a w"
| "run (Throw e w) rs = RejectedWith e w"
| "run (Await w q k) rs = (case rs of [] \<Rightarrow> Pending q w | r # rs' \<Rightarrow> run (k r w) rs')"


section \<open>The event loop\<close>

text \<open>
  All code of the context runs on one thread: calls of its methods by clients, the
  continuations of suspended calls, and the slots run by signals of the session connection
  are interleaved, each running from one suspension point to the next. A system is the
  state together with the calls made so far, each at the point it has reached; an action
  is one uninterrupted piece of work.
\<close>

primrec void :: "'a Proc \<Rightarrow> unit Proc" where
  "void (Return a w) = Return () w"
| "void (Throw e w) = Throw e w"
| "void (Await w q k) = Await w q (\<lambda>r w'. void (k r w'))"

datatype Call = Initialize | ChangeKernel KernelModel | SelectKernel | Restart | Shutdown

fun invoke :: "Call \<Rightarrow> World \<Rightarrow> unit Proc" where
  "invoke Initialize w = initialize w"
| "invoke (ChangeKernel options) w = void (changeKernel options w)"
| "invoke SelectKernel w = selectKernel w"
| "invoke Restart w = void (restart w)"
| "invoke Shutdown w = shutdown w"

text \<open>
  \<open>Invoke\<close>: a client calls a method. \<open>Resume i r\<close>: the \<open>i\<close>-th call, suspended on a
  request, is resumed with the answer \<open>r\<close>. \<open>Emits s ev\<close>: the session connection
  \<open>s\<close> emits \<open>ev\<close>. \<open>Disposes\<close>: a client calls \<^verbatim>\<open>dispose()\<close>.
  \<open>SetsPreference\<close>: a client assigns \<^verbatim>\<open>kernelPreference\<close>. \<open>Service\<close>: the
  session and kernel-spec services change the connections, the running sessions or the
  specs.
\<close>

datatype Action =
  Invoke Call
  | Resume nat Response
  | Emits sid SessionEvent
  | Disposes
  | SetsPreference IKernelPreference
  | Service "sid \<Rightarrow> ISessionConnection" "kid \<Rightarrow> IKernelConnection" "SessionModel list"
      "SessionModel \<Rightarrow> Error + sid" "ISpecModels option"

text \<open>
  \<open>requests\<close> lists the requests on which calls have suspended, \<open>answered\<close> the
  requests that were answered, with their answers.
\<close>

record System =
  world :: World
  calls :: "unit Proc list"
  requests :: "Request list"
  answered :: "(Request \<times> Response) list"

primrec requested :: "'a Proc \<Rightarrow> Request list" where
  "requested (Return a w) = []"
| "requested (Throw e w) = []"
| "requested (Await w q k) = [q]"

text \<open>
  The answers a request can get. \<^verbatim>\<open>this._ready.promise\<close> is fulfilled once
  \<^verbatim>\<open>this._ready.resolve\<close> was called, and nothing in the class rejects it.
\<close>

fun unitOrRejected :: "Response \<Rightarrow> bool" where
  "unitOrRejected (Resolved p) = (p = PUnit)"
| "unitOrRejected (Rejected e) = True"

fun sessionOrRejected :: "Response \<Rightarrow> bool" where
  "sessionOrRejected (Resolved (PSession s)) = True"
| "sessionOrRejected (Resolved p) = False"
| "sessionOrRejected (Rejected e) = True"

fun kernelOrRejected :: "Response \<Rightarrow> bool" where
  "kernelOrRejected (Resolved (PKernel k)) = True"
| "kernelOrRejected (Resolved p) = False"
| "kernelOrRejected (Rejected e) = True"

fun dialogOrRejected :: "Response \<Rightarrow> bool" where
  "dialogOrRejected (Resolved (PDialog a m)) = True"
| "dialogOrRejected (Resolved p) = False"
| "dialogOrRejected (Rejected e) = True"

fun answers :: "World \<Rightarrow> Request \<Rightarrow> Response \<Rightarrow> bool" where
  "answers w ReadyPromise r = (ready w \<and> r = Resolved PUnit)"
| "answers w Tick r = (r = Resolved PUnit)"
| "answers w ManagerReady r = unitOrRejected r"
| "answers w (StartNew options) r = sessionOrRejected r"
| "answers w (DialogLaunch cancelable) r = dialogOrRejected r"
| "answers w (SessionShutdownRequest s) r = unitOrRejected r"
| "answers w (SessionChangeKernel s options) r = kernelOrRejected r"
| "answers w RestartDialog r = dialogOrRejected r"
| "answers w (KernelRestart k) r = unitOrRejected r"

definition spawn :: "unit Proc \<Rightarrow> System \<Rightarrow> System" where
  "spawn p sys =
     sys\<lparr>world := stateOf p, calls := calls sys @ [p],
         requests := requests sys @ requested p\<rparr>"

definition resume :: "nat \<Rightarrow> Response \<Rightarrow> System \<Rightarrow> System" where
  "resume i r sys =
     (if i < length (calls sys) then
        (case calls sys ! i of
           Await w q k \<Rightarrow>
             if answers (world sys) q r then
               (let p = k r (world sys) in
                sys\<lparr>world := stateOf p, calls := (calls sys)[i := p],
                    requests := requests sys @ requested p,
                    answered := answered sys @ [(q, r)]\<rparr>)
             else sys
         | Return a w \<Rightarrow> sys
         | Throw e w \<Rightarrow> sys)
      else sys)"

fun perform :: "Action \<Rightarrow> System \<Rightarrow> System" where
  "perform (Invoke c) sys = spawn (invoke c (world sys)) sys"
| "perform (Resume i r) sys = resume i r sys"
| "perform (Emits s ev) sys = sys\<lparr>world := deliver s ev (world sys)\<rparr>"
| "perform Disposes sys = sys\<lparr>world := dispose (world sys)\<rparr>"
| "perform (SetsPreference p) sys = sys\<lparr>world := (world sys)\<lparr>kernelPreference := p\<rparr>\<rparr>"
| "perform (Service so ko rn ct sp) sys =
     sys\<lparr>world := (world sys)\<lparr>sessionObj := so, kernelObj := ko, managerRunning := rn,
                              connectTo := ct, managerSpecs := sp\<rparr>\<rparr>"

definition execute :: "Action list \<Rightarrow> System \<Rightarrow> System" where
  "execute acts sys = fold perform acts sys"

text \<open>A new context, before any call.\<close>

definition start :: "IOptions \<Rightarrow> string \<Rightarrow> World \<Rightarrow> System" where
  "start options uuid env =
     \<lparr>world = construct options uuid env, calls = [], requests = [], answered = []\<rparr>"

section \<open>Observations\<close>

text \<open>
  The readiness of a context, read from \<^verbatim>\<open>_initializing\<close> and
  \<^verbatim>\<open>_isReady\<close>, and its rank in the order Uninitialized, Initializing, Ready.
\<close>

datatype ReadyState = Uninitialized | Initializing | Ready

definition readyState :: "World \<Rightarrow> ReadyState" where
  "readyState w =
     (if isReady w then Ready else if initializing w then Initializing else Uninitialized)"


text \<open>How often \<^verbatim>\<open>this._ready.resolve\<close> was called.\<close>

definition resolves :: "Effect list \<Rightarrow> nat" where
  "resolves tr = count_list tr ReadyResolve"

text \<open>
  The kernel statuses the context has observed, oldest first (it re-emits each of them on
  \<^verbatim>\<open>statusChanged\<close>), and the last of them.
\<close>

definition observed :: "Effect list \<Rightarrow> Status list" where
  "observed tr = [st. Emit (StatusChanged st) \<leftarrow> tr]"

definition lastStatus :: "Effect list \<Rightarrow> Status option" where
  "lastStatus tr = (if observed tr = [] then None else Some (last (observed tr)))"

text \<open>The busy leases acquired, and those released, oldest first.\<close>

definition acquired :: "Effect list \<Rightarrow> nat list" where
  "acquired tr = [n. LeaseAcquire n \<leftarrow> tr]"

definition released :: "Effect list \<Rightarrow> nat list" where
  "released tr = [n. LeaseDispose n \<leftarrow> tr]"

definition held :: "World \<Rightarrow> nat list" where
  "held w = (case busyDisposable w of None \<Rightarrow> [] | Some d \<Rightarrow> [d])"

text \<open>
  The state in which \<^verbatim>\<open>_handleNewSession\<close> leaves the context, and the properties
  it re-emits because they differ from the cached ones.
\<close>

definition attached :: "sid \<Rightarrow> World \<Rightarrow> World" where
  "attached s w = (case priv_handleNewSession s w of Inr (kconn, w') \<Rightarrow> w' | Inl err \<Rightarrow> w)"

definition changedProperties :: "sid \<Rightarrow> World \<Rightarrow> Property list" where
  "changedProperties s w =
     (if s_path (sessionObj w s) \<noteq> cpath w then [Path] else [])
     @ (if s_name (sessionObj w s) \<noteq> cname w then [Name] else [])
     @ (if s_type (sessionObj w s) \<noteq> ctype w then [Type] else [])"

text \<open>Remote sessions created: requests to start a session that were answered with one.\<close>

fun isCreation :: "Request \<times> Response \<Rightarrow> bool" where
  "isCreation (StartNew options, Resolved (PSession s)) = True"
| "isCreation other = False"

definition creations :: "System \<Rightarrow> nat" where
  "creations sys = length (filter isCreation (answered sys))"

section \<open>Invariants\<close>

text \<open>
  Slots are connected to the signals of the current session connection only; a disposed
  context has no connection, no slot and no lease; the lease is held exactly when the last
  observed status is busy; leases are released in the order acquired, each once, and the
  only one not released is the one held; the leases are distinct disposables.
\<close>

definition consistent :: "World \<Rightarrow> bool" where
  "consistent w =
     ((\<forall>c \<in> set (slots w). session w = Some (fst c))
      \<and> (isDisposed w \<longrightarrow> session w = None \<and> slots w = [] \<and> busyDisposable w = None)
      \<and> (\<not> setBusy w \<longrightarrow> busyDisposable w = None)
      \<and> (setBusy w \<longrightarrow>
           (busyDisposable w \<noteq> None) = (lastStatus (trace w) = Some Busy \<and> \<not> isDisposed w))
      \<and> acquired (trace w) = released (trace w) @ held w
      \<and> distinct (acquired (trace w))
      \<and> (\<forall>n \<in> set (acquired (trace w)). n < nextLease w))"

text \<open>
  A piece of work is quiet if it leaves the readiness of the context as it is, keeps
  \<open>consistent\<close>, and does not revive a disposed context.
\<close>

definition quiet :: "World \<Rightarrow> World \<Rightarrow> bool" where
  "quiet w w' =
     (initializing w' = initializing w \<and> isReady w' = isReady w \<and> ready w' = ready w
      \<and> resolves (trace w') = resolves (trace w)
      \<and> setBusy w' = setBusy w
      \<and> (isDisposed w \<longrightarrow> isDisposed w')
      \<and> (consistent w \<longrightarrow> consistent w'))"

text \<open>The piece of work that makes the context ready.\<close>

definition readies :: "World \<Rightarrow> World \<Rightarrow> bool" where
  "readies w w' =
     (initializing w' = initializing w \<and> isReady w' \<and> ready w'
      \<and> resolves (trace w') = Suc (resolves (trace w))
      \<and> setBusy w' = setBusy w
      \<and> (isDisposed w \<longrightarrow> isDisposed w')
      \<and> (consistent w \<longrightarrow> consistent w'))"

text \<open>
  A call made once \<^verbatim>\<open>initialize\<close> has been entered is only ever resumed in a state
  in which \<^verbatim>\<open>_initializing\<close> or \<^verbatim>\<open>_isReady\<close> is set, since nothing
  resets them.
\<close>

definition started :: "World \<Rightarrow> bool" where
  "started w = (initializing w \<or> isReady w)"

text \<open>
  \<open>segs A Q p\<close>: whenever the call \<open>p\<close> is resumed, in a state \<open>w'\<close> that satisfies
  \<open>A\<close>, what it becomes satisfies \<open>Q w'\<close>.
\<close>

primrec segs :: "(World \<Rightarrow> bool) \<Rightarrow> (World \<Rightarrow> 'a Proc \<Rightarrow> bool) \<Rightarrow> 'a Proc \<Rightarrow> bool" where
  "segs A Q (Return a w) = True"
| "segs A Q (Throw e w) = True"
| "segs A Q (Await w q k) = (\<forall>r w'. A w' \<longrightarrow> Q w' (k r w') \<and> segs A Q (k r w'))"

text \<open>
  A plain call: each of its pieces is quiet, and it never waits on \<^verbatim>\<open>manager.ready\<close>
  (it is not a startup). \<open>plainAlways\<close> is the same for a call that may be resumed in any
  state.
\<close>

definition plainStep :: "World \<Rightarrow> 'a Proc \<Rightarrow> bool" where
  "plainStep w p = (quiet w (stateOf p) \<and> requested p \<noteq> [ManagerReady])"

definition plain :: "'a Proc \<Rightarrow> bool" where
  "plain p = segs started plainStep p"

definition plainAlways :: "'a Proc \<Rightarrow> bool" where
  "plainAlways p = segs (\<lambda>w. True) plainStep p"

definition plainCall :: "World \<Rightarrow> 'a Proc \<Rightarrow> bool" where
  "plainCall w p = (plainStep w p \<and> plain p)"

text \<open>
  A startup in progress: its pieces are quiet, until one makes the context ready, after
  which it is plain.
\<close>

primrec startup :: "'a Proc \<Rightarrow> bool" where
  "startup (Return a w) = True"
| "startup (Throw e w) = True"
| "startup (Await w q k) =
     (\<forall>r w'. started w' \<longrightarrow>
        (plainStep w' (k r w') \<and> startup (k r w'))
        \<or> (readies w' (stateOf (k r w')) \<and> requested (k r w') \<noteq> [ManagerReady]
           \<and> plain (k r w')))"

definition startupCall :: "World \<Rightarrow> 'a Proc \<Rightarrow> bool" where
  "startupCall w p =
     ((plainStep w p \<and> startup p)
      \<or> (readies w (stateOf p) \<and> requested p \<noteq> [ManagerReady] \<and> plain p))"

text \<open>Effects that concern neither the lease, nor the observed status, nor readiness.\<close>

fun silent :: "Effect \<Rightarrow> bool" where
  "silent (Emit (StatusChanged st)) = False"
| "silent (LeaseAcquire n) = False"
| "silent (LeaseDispose n) = False"
| "silent ReadyResolve = False"
| "silent e = True"

text \<open>
  A step that changes only fields on which the invariants do not depend, and appends
  silent effects.
\<close>

definition frame :: "World \<Rightarrow> World \<Rightarrow> bool" where
  "frame w w' =
     (isDisposed w' = isDisposed w \<and> session w' = session w \<and> slots w' = slots w
      \<and> busyDisposable w' = busyDisposable w \<and> setBusy w' = setBusy w
      \<and> nextLease w' = nextLease w \<and> initializing w' = initializing w
      \<and> isReady w' = isReady w \<and> ready w' = ready w
      \<and> (\<exists>es. trace w' = trace w @ es \<and> (\<forall>e \<in> set es. silent e)))"

text \<open>
  The calls of a system: all plain, or all plain but one startup. A system is well run if
  its state satisfies the invariants and \<^verbatim>\<open>this._ready\<close> was resolved exactly when
  \<^verbatim>\<open>_isReady\<close> is set, \<^verbatim>\<open>manager.ready\<close> was waited on exactly when
  \<^verbatim>\<open>_initializing\<close> is set, and a startup is in progress only while the context is
  initializing.
\<close>

definition onlyPlain :: "unit Proc list \<Rightarrow> bool" where
  "onlyPlain ps = (\<forall>p \<in> set ps. plain p)"

definition oneStartup :: "unit Proc list \<Rightarrow> bool" where
  "oneStartup ps =
     (\<exists>i < length ps. startup (ps ! i) \<and> (\<forall>j < length ps. j \<noteq> i \<longrightarrow> plain (ps ! j)))"

definition wellRun :: "System \<Rightarrow> bool" where
  "wellRun sys =
     (resolves (trace (world sys)) = (if isReady (world sys) then 1 else 0)
      \<and> ready (world sys) = isReady (world sys)
      \<and> (isReady (world sys) \<longrightarrow> initializing (world sys))
      \<and> consistent (world sys)
      \<and> count_list (requests sys) ManagerReady = (if initializing (world sys) then 1 else 0)
      \<and> (if started (world sys)
          then onlyPlain (calls sys)
               \<or> (initializing (world sys) \<and> \<not> isReady (world sys) \<and> oneStartup (calls sys))
          else \<forall>p \<in> set (calls sys). plainAlways p))"

text \<open>
  One action leaves the readiness where it is or advances it by one step; it does not
  revive a disposed context, and it keeps the busy-lease factory.
\<close>

definition advances :: "World \<Rightarrow> World \<Rightarrow> bool" where
  "advances w w' =
     ((readyState w' = readyState w
       \<or> (readyState w = Uninitialized \<and> readyState w' = Initializing)
       \<or> (readyState w = Initializing \<and> readyState w' = Ready))
      \<and> (isDisposed w \<longrightarrow> isDisposed w')
      \<and> setBusy w' = setBusy w)"

section \<open>A notebook and its session\<close>

text \<open>
  The collaborators used in the examples: the session service knows one running session,
  at the path of the context, whose kernel is \<^verbatim>\<open>python3\<close>; connecting to it gives
  the session connection at address 0, whose kernel connection is at address 0; the specs
  are those of \<open>catalog3\<close>.
\<close>

definition kernel0 :: IKernelConnection where
  "kernel0 = \<lparr>k_id = ''k0'', k_name = ''python3'', k_status = Idle, k_isDisposed = False\<rparr>"

definition session0 :: ISessionConnection where
  "session0 =
     \<lparr>s_path = ''nb.ipynb'', s_name = ''nb'', s_type = ''notebook'', s_kernel = Some 0,
      s_isDisposed = False\<rparr>"

definition model0 :: SessionModel where
  "model0 =
     \<lparr>m_path = ''nb.ipynb'', m_name = ''nb'', m_type = ''notebook'',
      m_kernel = \<lparr>km_id = Some ''k0'', km_name = Some ''python3''\<rparr>\<rparr>"

definition env0 :: World where
  "env0 =
     \<lparr>cpath = [], cname = [], ctype = [], prevKernelName = None,
      kernelPreference = emptyPreference, isDisposed = False, session = None, ready = False,
      initializing = False, isReady = False, dialog = None, setBusy = False,
      busyDisposable = None, slots = [],
      sessionObj = (\<lambda>s. session0), kernelObj = (\<lambda>k. kernel0),
      managerRunning = [model0], connectTo = (\<lambda>m. Inr 0), managerSpecs = Some catalog3,
      nextLease = 0, trace = []\<rparr>"

definition options0 :: IOptions where
  "options0 =
     \<lparr>o_path = Some ''nb.ipynb'', o_name = Some ''nb'', o_type = Some ''notebook'',
      o_kernelPreference = None, o_setBusy = True\<rparr>"

text \<open>The context of the notebook, new, and the same when no session is running.\<close>

definition notebook :: System where
  "notebook = start options0 ''uuid'' env0"

definition notebookAlone :: System where
  "notebookAlone = start options0 ''uuid'' (env0\<lparr>managerRunning := []\<rparr>)"

text \<open>The same when the session service fails to connect to the running session.\<close>

definition notebookUnreachable :: System where
  "notebookUnreachable =
     start options0 ''uuid'' (env0\<lparr>connectTo := (\<lambda>m. Inl (ResponseError ''500''))\<rparr>)"

text \<open>
  The notebook after \<^verbatim>\<open>initialize()\<close> has attached it to the running session,
  and the same after the session has lost its kernel (the service reports the session
  without kernel, and the connection emits \<^verbatim>\<open>kernelChanged\<close>).
\<close>

definition notebookReady :: System where
  "notebookReady =
     execute [Invoke Initialize, Resume 0 (Resolved PUnit), Resume 0 (Resolved PUnit)] notebook"

definition notebookKernelLost :: System where
  "notebookKernelLost =
     execute
       [Service (\<lambda>s. session0\<lparr>s_kernel := None\<rparr>) (\<lambda>k. kernel0) [model0] (\<lambda>m. Inr 0)
          (Some catalog3),
        Emits 0 (EvKernelChanged (Some 0) None)]
       notebookReady"

text \<open>
  \<^verbatim>\<open>restart()\<close> on it, run to its end: the call is the second of the system, and it
  is resumed five times (the ready promise and the turn after it, twice, for
  \<^verbatim>\<open>restart\<close> and for \<^verbatim>\<open>changeKernel\<close>, then the turn in which
  \<^verbatim>\<open>restart\<close> sees the outcome of \<^verbatim>\<open>changeKernel\<close>).
\<close>

definition notebookRestarted :: System where
  "notebookRestarted =
     execute
       [Invoke Restart, Resume 1 (Resolved PUnit), Resume 1 (Resolved PUnit),
        Resume 1 (Resolved PUnit), Resume 1 (Resolved PUnit), Resume 1 (Resolved PUnit)]
       notebookKernelLost"

text \<open>
  \<^verbatim>\<open>initialize()\<close> when connecting to the running session fails: the call, the first
  of the system, is resumed once, when \<^verbatim>\<open>manager.ready\<close> is fulfilled.
\<close>

definition notebookAttachFailed :: System where
  "notebookAttachFailed =
     execute [Invoke Initialize, Resume 0 (Resolved PUnit)] notebookUnreachable"

text \<open>How a call has ended, if it has: the error it was rejected with, the state it was fulfilled in.\<close>

primrec rejection :: "'a Proc \<Rightarrow> Error option" where
  "rejection (Return a w) = None"
| "rejection (Throw e w) = Some e"
| "rejection (Await w q k) = None"

primrec fulfilled :: "'a Proc \<Rightarrow> bool" where
  "fulfilled (Return a w) = True"
| "fulfilled (Throw e w) = False"
| "fulfilled (Await w q k) = False"

text \<open>The sessions the calls have asked the session service to start.\<close>

definition startRequests :: "System \<Rightarrow> StartOptions list" where
  "startRequests sys = [options. StartNew options \<leftarrow> requests sys]"

text \<open>
  \<open>fulfilsReady p\<close>: whenever the call \<open>p\<close> is fulfilled, \<^verbatim>\<open>_isReady\<close> is set.
  Only answers that the requests can get are considered, in states where
  \<^verbatim>\<open>this._ready\<close> is resolved exactly if \<^verbatim>\<open>_isReady\<close> is set.
\<close>

primrec fulfilsReady :: "'a Proc \<Rightarrow> bool" where
  "fulfilsReady (Return a w) = isReady w"
| "fulfilsReady (Throw e w) = True"
| "fulfilsReady (Await w q k) =
     (\<forall>r w'. answers w' q r \<and> ready w' = isReady w' \<longrightarrow> fulfilsReady (k r w'))"



section \<open>Sessions created during the startup\<close>

text \<open>
  \<open>unready w w' q r\<close>: a call suspended in state \<open>w\<close> on the request \<open>q\<close> can be
  resumed with \<open>r\<close> in the state \<open>w'\<close>, and the context is not ready by then: the
  answer fits the request, \<^verbatim>\<open>_isReady\<close> is not set and \<^verbatim>\<open>this._ready\<close>
  not resolved, and a context that was disposed at \<open>w\<close> still is.
\<close>

definition unready :: "World \<Rightarrow> World \<Rightarrow> Request \<Rightarrow> Response \<Rightarrow> bool" where
  "unready w w' q r =
     (\<not> isReady w \<and> \<not> isReady w' \<and> \<not> ready w' \<and> (isDisposed w \<longrightarrow> isDisposed w')
      \<and> answers w' q r)"

text \<open>
  \<open>budget n R p\<close>: as long as the context is not ready, the call \<open>p\<close> gets at most
  \<open>n\<close> sessions created, and if it is fulfilled, then in a state that satisfies \<open>R\<close>.
\<close>

primrec budget :: "nat \<Rightarrow> (World \<Rightarrow> bool) \<Rightarrow> 'a Proc \<Rightarrow> bool" where
  "budget n R (Return a w) = R w"
| "budget n R (Throw e w) = True"
| "budget n R (Await w q k) =
     (\<forall>r w'. unready w w' q r \<longrightarrow>
        (if isCreation (q, r) then 0 < n \<and> budget (n - 1) R (k r w')
         else budget n R (k r w')))"

definition anyState :: "World \<Rightarrow> bool" where
  "anyState w = True"

text \<open>The state a call stopped in lies in the past of \<open>w\<close>.\<close>

definition past :: "'a Proc \<Rightarrow> World \<Rightarrow> bool" where
  "past p w =
     ((isDisposed (stateOf p) \<longrightarrow> isDisposed w) \<and> (isReady (stateOf p) \<longrightarrow> isReady w))"




section \<open>What the calls do to the trace\<close>

text \<open>
  The effects a call of a method can have: neither a status change re-emitted, nor the
  disposal notification, nor \<^verbatim>\<open>Signal.clearData\<close>, nor anything on a busy lease;
  these are left to the slots and to \<^verbatim>\<open>dispose\<close>. On a disposed context a call
  can still resolve \<^verbatim>\<open>this._ready\<close>, report an error and dispose the dialog it
  opened.
\<close>

fun internal :: "Effect \<Rightarrow> bool" where
  "internal (Emit (StatusChanged st)) = False"
| "internal (Emit DisposedSignal) = False"
| "internal (LeaseAcquire n) = False"
| "internal (LeaseDispose n) = False"
| "internal ClearData = False"
| "internal e = True"

fun posthumous :: "Effect \<Rightarrow> bool" where
  "posthumous ReadyResolve = True"
| "posthumous (ShowError err) = True"
| "posthumous DialogDispose = True"
| "posthumous e = False"

text \<open>
  \<open>remains w w'\<close>: what is left of a disposed context in \<open>w\<close> is still there in
  \<open>w'\<close>. The context is disposed, its session connection, slots, lease, path, name, type
  and previous kernel name are the same, and the trace has grown by posthumous effects
  only. The fields \<^verbatim>\<open>_initializing\<close>, \<^verbatim>\<open>_isReady\<close>, \<^verbatim>\<open>_ready\<close>,
  \<^verbatim>\<open>_dialog\<close> and \<^verbatim>\<open>_kernelPreference\<close> are not mentioned: they do change.
\<close>

definition remains :: "World \<Rightarrow> World \<Rightarrow> bool" where
  "remains w w' =
     (isDisposed w' \<and> session w' = session w \<and> slots w' = slots w
      \<and> busyDisposable w' = busyDisposable w \<and> nextLease w' = nextLease w
      \<and> setBusy w' = setBusy w \<and> cpath w' = cpath w \<and> cname w' = cname w
      \<and> ctype w' = ctype w \<and> prevKernelName w' = prevKernelName w
      \<and> (\<exists>es. trace w' = trace w @ es \<and> (\<forall>e \<in> set es. posthumous e)))"

text \<open>
  A piece of work is calm if it neither disposes the context nor has any effect other
  than the internal ones, and, on a disposed context, leaves what remains of it.
\<close>

definition calm :: "World \<Rightarrow> World \<Rightarrow> bool" where
  "calm w w' =
     (if isDisposed w then remains w w'
      else \<not> isDisposed w' \<and> (\<exists>es. trace w' = trace w @ es \<and> (\<forall>e \<in> set es. internal e)))"

definition calmStep :: "World \<Rightarrow> 'a Proc \<Rightarrow> bool" where
  "calmStep w p = calm w (stateOf p)"

definition calmProc :: "'a Proc \<Rightarrow> bool" where
  "calmProc p = segs (\<lambda>w. True) calmStep p"

definition calmCall :: "World \<Rightarrow> 'a Proc \<Rightarrow> bool" where
  "calmCall w p = (calmStep w p \<and> calmProc p)"

text \<open>How often the disposal notification was emitted.\<close>

definition disposals :: "Effect list \<Rightarrow> nat" where
  "disposals tr = count_list tr (Emit DisposedSignal)"

section \<open>The statuses delivered to the context\<close>

text \<open>
  The status an action makes the context observe: the one a session connection emits on
  \<^verbatim>\<open>statusChanged\<close> while the slot of the context is connected to that signal.
  \<open>statuses\<close> lists them for a sequence of actions, oldest first. They are read from
  what the session connections emit, not from what the context does with it.
\<close>

fun notified :: "Action \<Rightarrow> World \<Rightarrow> Status list" where
  "notified (Emits s (EvStatusChanged st)) w =
     (if (s, ChStatusChanged) \<in> set (slots w) then [st] else [])"
| "notified a w = []"

fun statuses :: "Action list \<Rightarrow> System \<Rightarrow> Status list" where
  "statuses [] sys = []"
| "statuses (a # acts) sys = notified a (world sys) @ statuses acts (perform a sys)"

section \<open>Callers of a startup that fails\<close>

text \<open>A call that has ended, and a call that no answer to its requests can reject.\<close>

primrec ended :: "'a Proc \<Rightarrow> bool" where
  "ended (Return a w) = True"
| "ended (Throw e w) = True"
| "ended (Await w q k) = False"


section \<open>Further runs of the notebook\<close>


text \<open>
  The notebook without a running session, disposed before any other call, and the same
  after a call of \<^verbatim>\<open>initialize()\<close> that is resumed twice: when
  \<^verbatim>\<open>manager.ready\<close> is fulfilled and in the turn after
  \<^verbatim>\<open>_startIfNecessary\<close> has returned.
\<close>

definition notebookDisposed :: System where
  "notebookDisposed = execute [Disposes] notebookAlone"

definition notebookDisposedInitialized :: System where
  "notebookDisposedInitialized =
     execute [Invoke Initialize, Resume 0 (Resolved PUnit), Resume 0 (Resolved PUnit)]
       notebookDisposed"

text \<open>
  The notebook attached to its running session, whose kernel gets busy and then idle;
  and the notebook disposed while the kernel is busy.
\<close>

definition busyThenIdle :: "Action list" where
  "busyThenIdle =
     [Invoke Initialize, Resume 0 (Resolved PUnit), Resume 0 (Resolved PUnit),
      Emits 0 (EvStatusChanged Busy), Emits 0 (EvStatusChanged Idle)]"

definition busyThenDisposed :: "Action list" where
  "busyThenDisposed =
     [Invoke Initialize, Resume 0 (Resolved PUnit), Resume 0 (Resolved PUnit),
      Emits 0 (EvStatusChanged Busy), Disposes]"

text \<open>
  What may still happen to a disposed context: a status change of the old session
  connection, \<^verbatim>\<open>dispose()\<close> again, a call of \<^verbatim>\<open>restart()\<close>
  (the second call of the system, resumed twice), and a call of
  \<^verbatim>\<open>initialize()\<close> (the third, resumed once).
\<close>

definition afterwards :: "Action list" where
  "afterwards =
     [Emits 0 (EvStatusChanged Busy), Disposes, Invoke Restart, Resume 1 (Resolved PUnit),
      Resume 1 (Resolved PUnit), Invoke Initialize, Resume 2 (Resolved PUnit)]"

section \<open>The default kernel\<close>

lemma matches_entries:
  assumes "distinct (map fst (kernelspecs specs))"
  shows "filter (languageMatches specs (Some l)) (specNames specs) =
         map fst (entriesWithLanguage specs l)"
proof -
  have "\<And>e. e \<in> set (kernelspecs specs) \<Longrightarrow>
          languageMatches specs (Some l) (fst e) = (spec_language (snd e) = l)"
  proof -
    fix e assume "e \<in> set (kernelspecs specs)"
    then have "map_of (kernelspecs specs) (fst e) = Some (snd e)"
      using assms by simp
    then show "languageMatches specs (Some l) (fst e) = (spec_language (snd e) = l)"
      by (auto simp: languageMatches_def)
  qed
  then have "filter (languageMatches specs (Some l) \<circ> fst) (kernelspecs specs) =
             filter (\<lambda>e. spec_language (snd e) = l) (kernelspecs specs)"
    by (intro filter_cong) auto
  then show ?thesis
    by (simp add: specNames_def entriesWithLanguage_def filter_map)
qed

lemma find_name_None:
  "(\<forall>specName \<in> set names. name \<noteq> Some specName) \<Longrightarrow>
   find (\<lambda>specName. Some specName = name) names = None"
  by (auto simp: find_None_iff)

text \<open>
  C3. Let the catalog be present, \<^verbatim>\<open>shouldStart\<close> and \<^verbatim>\<open>canStart\<close> not
  \<^verbatim>\<open>false\<close>, the preferred name unset or equal to no key of the catalog, and the
  preferred language set (a non-empty string: the code tests \<^verbatim>\<open>!language\<close>). If
  exactly one entry of the catalog has that language, \<open>getDefaultKernel\<close> returns the
  name of that entry; if none or several have it, it returns the fallback: the catalog's
  default if \<^verbatim>\<open>autoStartDefault\<close> is truthy, and \<^verbatim>\<open>null\<close> otherwise.
\<close>

theorem getDefaultKernel_language:
  assumes catalog: "ks_specs options = Some specs"
    and keys: "distinct (map fst (kernelspecs specs))"
    and start: "shouldStart (ks_preference options) \<noteq> Some False"
               "canStart (ks_preference options) \<noteq> Some False"
    and name: "\<forall>specName \<in> set (specNames specs).
                 pref_name (ks_preference options) \<noteq> Some specName"
    and lang: "pref_language (ks_preference options) = Some l" "l \<noteq> []"
  shows "getDefaultKernel options =
           (case entriesWithLanguage specs l of
              [e] \<Rightarrow> Some (fst e)
            | _ \<Rightarrow> fallback specs (ks_preference options))"
proof -
  have t: "truthy (Some l)" using lang by (simp add: truthy_def)
  have f: "find (\<lambda>specName. Some specName = pref_name (ks_preference options))
             (specNames specs) = None"
    using name by (rule find_name_None)
  have m: "filter (languageMatches specs (Some l)) (specNames specs) =
           map fst (entriesWithLanguage specs l)"
    using keys by (rule matches_entries)
  show ?thesis
  proof (cases "entriesWithLanguage specs l")
    case Nil
    then show ?thesis using catalog start t f m lang
      by (simp add: getDefaultKernel_def fallback_def truthyB_def Let_def)
  next
    case (Cons e es)
    then show ?thesis using catalog start t f m lang
      by (cases es) (simp_all add: getDefaultKernel_def fallback_def truthyB_def Let_def)
  qed
qed

theorem getDefaultKernel_language_witness:
  "getDefaultKernel
     \<lparr>ks_specs = Some catalog3,
      ks_preference = emptyPreference\<lparr>pref_language := Some ''r''\<rparr>,
      ks_sessions = None\<rparr> = Some ''ir''"
  using getDefaultKernel_language
    [of "\<lparr>ks_specs = Some catalog3,
          ks_preference = emptyPreference\<lparr>pref_language := Some ''r''\<rparr>,
          ks_sessions = None\<rparr>" catalog3 "''r''"]
  by (simp add: catalog3_def emptyPreference_def specNames_def entriesWithLanguage_def)

text \<open>
  The fallback case of the same statement on the catalog of the examples: two entries have
  the language \<^verbatim>\<open>python\<close>, and with \<^verbatim>\<open>autoStartDefault: true\<close> the result is
  the catalog's default.
\<close>

lemma getDefaultKernel_two_matches_autoStart:
  "getDefaultKernel
     \<lparr>ks_specs = Some catalog3,
      ks_preference =
        emptyPreference\<lparr>pref_language := Some ''python'', autoStartDefault := Some True\<rparr>,
      ks_sessions = None\<rparr> = Some ''python3''"
  by (simp add: getDefaultKernel_def catalog3_def emptyPreference_def specNames_def
      languageMatches_def truthy_def truthyB_def)

text \<open>
  C4. The preference \<^verbatim>\<open>{language: "python"}\<close> sets only the language, so
  \<^verbatim>\<open>autoStartDefault\<close> is \<^verbatim>\<open>undefined\<close>. The interface documents its default
  as \<^verbatim>\<open>true\<close>, but \<^verbatim>\<open>autoStartDefault ? specs.default : null\<close> takes
  \<^verbatim>\<open>undefined\<close> for false: on the catalog with python3, python2 and ir the result is
  \<^verbatim>\<open>null\<close>, not \<^verbatim>\<open>"python3"\<close>.
\<close>

theorem getDefaultKernel_two_matches_default_unset:
  "getDefaultKernel
     \<lparr>ks_specs = Some catalog3,
      ks_preference = emptyPreference\<lparr>pref_language := Some ''python''\<rparr>,
      ks_sessions = None\<rparr> = None"
  by (simp add: getDefaultKernel_def catalog3_def emptyPreference_def specNames_def
      languageMatches_def truthy_def truthyB_def)

text \<open>
  C5. \<open>getDefaultKernel\<close> returns \<^verbatim>\<open>null\<close> whenever the catalog is absent, or
  \<^verbatim>\<open>shouldStart\<close> is \<^verbatim>\<open>false\<close>, or \<^verbatim>\<open>canStart\<close> is
  \<^verbatim>\<open>false\<close>, whatever the other fields of the preference, the catalog and the
  running sessions are.
\<close>

theorem getDefaultKernel_null:
  "ks_specs options = None \<or> shouldStart (ks_preference options) = Some False
     \<or> canStart (ks_preference options) = Some False
   \<Longrightarrow> getDefaultKernel options = None"
  by (auto simp: getDefaultKernel_def Let_def split: option.splits)

theorem getDefaultKernel_null_witness:
  "getDefaultKernel
     \<lparr>ks_specs = Some catalog3,
      ks_preference =
        emptyPreference\<lparr>pref_name := Some ''python3'', canStart := Some False,
                         autoStartDefault := Some True\<rparr>,
      ks_sessions = None\<rparr> = None"
  using getDefaultKernel_null
    [of "\<lparr>ks_specs = Some catalog3,
          ks_preference =
            emptyPreference\<lparr>pref_name := Some ''python3'', canStart := Some False,
                             autoStartDefault := Some True\<rparr>,
          ks_sessions = None\<rparr>"]
  by (simp add: emptyPreference_def)

section \<open>Facts about the steps of the context\<close>

lemma trace_effect [simp]: "trace (effect e w) = trace w @ [e]"
  by (simp add: effect_def)

lemma effect_fields [simp]:
  "isDisposed (effect e w) = isDisposed w" "session (effect e w) = session w"
  "busyDisposable (effect e w) = busyDisposable w" "slots (effect e w) = slots w"
  "dialog (effect e w) = dialog w" "initializing (effect e w) = initializing w"
  "isReady (effect e w) = isReady w" "ready (effect e w) = ready w"
  "setBusy (effect e w) = setBusy w" "nextLease (effect e w) = nextLease w"
  "sessionObj (effect e w) = sessionObj w" "kernelObj (effect e w) = kernelObj w"
  "kernelPreference (effect e w) = kernelPreference w"
  "prevKernelName (effect e w) = prevKernelName w"
  "cpath (effect e w) = cpath w" "cname (effect e w) = cname w" "ctype (effect e w) = ctype w"
  "managerRunning (effect e w) = managerRunning w" "connectTo (effect e w) = connectTo w"
  "managerSpecs (effect e w) = managerSpecs w"
  by (simp_all add: effect_def)

lemma sessionDispose_fields [simp]:
  "isDisposed (sessionDispose s w) = isDisposed w" "session (sessionDispose s w) = session w"
  "busyDisposable (sessionDispose s w) = busyDisposable w"
  "dialog (sessionDispose s w) = dialog w" "initializing (sessionDispose s w) = initializing w"
  "isReady (sessionDispose s w) = isReady w" "ready (sessionDispose s w) = ready w"
  "setBusy (sessionDispose s w) = setBusy w" "nextLease (sessionDispose s w) = nextLease w"
  "kernelPreference (sessionDispose s w) = kernelPreference w"
  "prevKernelName (sessionDispose s w) = prevKernelName w"
  "cpath (sessionDispose s w) = cpath w" "cname (sessionDispose s w) = cname w"
  "ctype (sessionDispose s w) = ctype w"
  "trace (sessionDispose s w) = trace w @ [SessionDispose s]"
  "slots (sessionDispose s w) = filter (\<lambda>c. fst c \<noteq> s) (slots w)"
  by (simp_all add: sessionDispose_def)

lemma dispose_disposed: "isDisposed (dispose w)"
  by (simp add: dispose_def Let_def clearData_def emit_def split: option.splits)

lemma dispose_twice: "dispose (dispose w) = dispose w"
  using dispose_disposed [of w] by (simp add: dispose_def [of "dispose w"])

lemma dispose_funpow: "(dispose ^^ Suc n) w = dispose w"
  by (induction n) (simp_all add: dispose_twice)

lemma dispose_trace:
  "\<not> isDisposed w \<Longrightarrow>
   trace (dispose w) =
     trace w
     @ (case session w of
          Some s \<Rightarrow> (if truthyB (shutdownOnDispose (kernelPreference w)) then [SessionShutdown s] else [])
                    @ [SessionDispose s]
        | None \<Rightarrow> [])
     @ (case dialog w of Some d \<Rightarrow> [DialogDispose] | None \<Rightarrow> [])
     @ (case busyDisposable w of Some d \<Rightarrow> [LeaseDispose d] | None \<Rightarrow> [])
     @ [Emit DisposedSignal, ClearData]"
  by (simp add: dispose_def Let_def clearData_def emit_def split: option.splits)

lemma dispose_state:
  "\<not> isDisposed w \<Longrightarrow>
   session (dispose w) = None \<and> busyDisposable (dispose w) = None \<and> slots (dispose w) = []
   \<and> cpath (dispose w) = cpath w \<and> cname (dispose w) = cname w \<and> ctype (dispose w) = ctype w
   \<and> prevKernelName (dispose w) = prevKernelName w
   \<and> kernelPreference (dispose w) = kernelPreference w
   \<and> initializing (dispose w) = initializing w \<and> isReady (dispose w) = isReady w
   \<and> ready (dispose w) = ready w \<and> dialog (dispose w) = dialog w
   \<and> nextLease (dispose w) = nextLease w \<and> setBusy (dispose w) = setBusy w"
  by (simp add: dispose_def Let_def clearData_def emit_def split: option.splits)

lemma connectSlot_fields [simp]:
  "isDisposed (connectSlot s ch w) = isDisposed w" "session (connectSlot s ch w) = session w"
  "busyDisposable (connectSlot s ch w) = busyDisposable w"
  "dialog (connectSlot s ch w) = dialog w" "initializing (connectSlot s ch w) = initializing w"
  "isReady (connectSlot s ch w) = isReady w" "ready (connectSlot s ch w) = ready w"
  "setBusy (connectSlot s ch w) = setBusy w" "nextLease (connectSlot s ch w) = nextLease w"
  "kernelPreference (connectSlot s ch w) = kernelPreference w"
  "prevKernelName (connectSlot s ch w) = prevKernelName w"
  "cpath (connectSlot s ch w) = cpath w" "cname (connectSlot s ch w) = cname w"
  "ctype (connectSlot s ch w) = ctype w"
  "sessionObj (connectSlot s ch w) = sessionObj w" "kernelObj (connectSlot s ch w) = kernelObj w"
  "trace (connectSlot s ch w) = trace w @ [ConnectSlot s ch]"
  "set (slots (connectSlot s ch w)) = insert (s, ch) (set (slots w))"
  by (auto simp: connectSlot_def)

lemma fold_connectSlot [simp]:
  "isDisposed (fold (connectSlot s) chs w) = isDisposed w"
  "session (fold (connectSlot s) chs w) = session w"
  "busyDisposable (fold (connectSlot s) chs w) = busyDisposable w"
  "dialog (fold (connectSlot s) chs w) = dialog w"
  "initializing (fold (connectSlot s) chs w) = initializing w"
  "isReady (fold (connectSlot s) chs w) = isReady w"
  "ready (fold (connectSlot s) chs w) = ready w"
  "setBusy (fold (connectSlot s) chs w) = setBusy w"
  "nextLease (fold (connectSlot s) chs w) = nextLease w"
  "kernelPreference (fold (connectSlot s) chs w) = kernelPreference w"
  "prevKernelName (fold (connectSlot s) chs w) = prevKernelName w"
  "cpath (fold (connectSlot s) chs w) = cpath w"
  "cname (fold (connectSlot s) chs w) = cname w"
  "ctype (fold (connectSlot s) chs w) = ctype w"
  "sessionObj (fold (connectSlot s) chs w) = sessionObj w"
  "kernelObj (fold (connectSlot s) chs w) = kernelObj w"
  "trace (fold (connectSlot s) chs w) = trace w @ map (ConnectSlot s) chs"
  "set (slots (fold (connectSlot s) chs w)) = set (slots w) \<union> Pair s ` set chs"
  by (induction chs arbitrary: w) auto

lemma emit_fields [simp]:
  "isDisposed (emit g w) = isDisposed w" "session (emit g w) = session w"
  "busyDisposable (emit g w) = busyDisposable w" "slots (emit g w) = slots w"
  "dialog (emit g w) = dialog w" "initializing (emit g w) = initializing w"
  "isReady (emit g w) = isReady w" "ready (emit g w) = ready w"
  "setBusy (emit g w) = setBusy w" "nextLease (emit g w) = nextLease w"
  "sessionObj (emit g w) = sessionObj w" "kernelObj (emit g w) = kernelObj w"
  "kernelPreference (emit g w) = kernelPreference w"
  "prevKernelName (emit g w) = prevKernelName w"
  "cpath (emit g w) = cpath w" "cname (emit g w) = cname w" "ctype (emit g w) = ctype w"
  "trace (emit g w) = trace w @ [Emit g]"
  by (simp_all add: emit_def)

lemma onPropertyChanged_fields [simp]:
  "isDisposed (priv_onPropertyChanged s p w) = isDisposed w"
  "session (priv_onPropertyChanged s p w) = session w"
  "busyDisposable (priv_onPropertyChanged s p w) = busyDisposable w"
  "slots (priv_onPropertyChanged s p w) = slots w"
  "dialog (priv_onPropertyChanged s p w) = dialog w"
  "initializing (priv_onPropertyChanged s p w) = initializing w"
  "isReady (priv_onPropertyChanged s p w) = isReady w"
  "ready (priv_onPropertyChanged s p w) = ready w"
  "setBusy (priv_onPropertyChanged s p w) = setBusy w"
  "nextLease (priv_onPropertyChanged s p w) = nextLease w"
  "sessionObj (priv_onPropertyChanged s p w) = sessionObj w"
  "kernelObj (priv_onPropertyChanged s p w) = kernelObj w"
  "kernelPreference (priv_onPropertyChanged s p w) = kernelPreference w"
  "prevKernelName (priv_onPropertyChanged s p w) = prevKernelName w"
  "trace (priv_onPropertyChanged s p w) = trace w @ [Emit (PropertyChanged p)]"
  by (cases p; simp)+

lemma handleNewSession_Inr:
  "\<not> isDisposed w \<Longrightarrow>
   priv_handleNewSession s w = Inr (s_kernel (sessionObj (attached s w) s), attached s w)"
  by (simp add: attached_def priv_handleNewSession_def Let_def)

lemma handleNewSession_Inl:
  "isDisposed w \<Longrightarrow> priv_handleNewSession s w = Inl Disposed"
  by (simp add: priv_handleNewSession_def)

lemma sessionObj_sessionDispose:
  "sessionObj (sessionDispose old w) s = (sessionObj w s)\<lparr>s_isDisposed := (s = old \<or> s_isDisposed (sessionObj w s))\<rparr>"
  by (simp add: sessionDispose_def effect_def)

lemma attached_fields:
  assumes "\<not> isDisposed w"
  shows "session (attached s w) = Some s"
    and "isDisposed (attached s w) = isDisposed w"
    and "busyDisposable (attached s w) = busyDisposable w"
    and "initializing (attached s w) = initializing w"
    and "isReady (attached s w) = isReady w"
    and "ready (attached s w) = ready w"
    and "setBusy (attached s w) = setBusy w"
    and "nextLease (attached s w) = nextLease w"
    and "dialog (attached s w) = dialog w"
    and "kernelPreference (attached s w) = kernelPreference w"
    and "set (slots (attached s w)) =
           {c \<in> set (slots w). session w \<noteq> Some (fst c)} \<union> Pair s ` set sessionChannels"
  using assms
  by (auto simp: attached_def priv_handleNewSession_def Let_def split: option.splits)

lemma attached_trace:
  assumes "\<not> isDisposed w"
  shows "trace (attached s w) =
           trace w
           @ (case session w of Some old \<Rightarrow> [SessionDispose old] | None \<Rightarrow> [])
           @ map (ConnectSlot s) sessionChannels
           @ map (\<lambda>p. Emit (PropertyChanged p)) (changedProperties s w)
           @ [Emit (KernelChanged None (s_kernel (sessionObj (attached s w) s)))]"
  using assms
  by (auto simp: attached_def priv_handleNewSession_def Let_def changedProperties_def
      sessionObj_sessionDispose split: option.splits)

lemma channelOf_in: "channelOf ev \<in> set sessionChannels"
  by (cases ev) (simp_all add: sessionChannels_def)

section \<open>Invariants of the event loop\<close>



lemma observed_simps [simp]:
  "observed [] = []"
  "observed (tr @ tr') = observed tr @ observed tr'"
  "observed (e # tr) = (case e of Emit (StatusChanged st) \<Rightarrow> [st] | _ \<Rightarrow> []) @ observed tr"
  by (simp_all add: observed_def)

lemma acquired_simps [simp]:
  "acquired [] = []"
  "acquired (tr @ tr') = acquired tr @ acquired tr'"
  "acquired (e # tr) = (case e of LeaseAcquire n \<Rightarrow> [n] | _ \<Rightarrow> []) @ acquired tr"
  by (simp_all add: acquired_def)

lemma released_simps [simp]:
  "released [] = []"
  "released (tr @ tr') = released tr @ released tr'"
  "released (e # tr) = (case e of LeaseDispose n \<Rightarrow> [n] | _ \<Rightarrow> []) @ released tr"
  by (simp_all add: released_def)

lemma resolves_simps [simp]:
  "resolves [] = 0"
  "resolves (tr @ tr') = resolves tr + resolves tr'"
  "resolves (e # tr) = (if e = ReadyResolve then 1 else 0) + resolves tr"
  by (simp_all add: resolves_def)

lemma lastStatus_append:
  "lastStatus (tr @ tr') = (if observed tr' = [] then lastStatus tr else lastStatus tr')"
  by (simp add: lastStatus_def)

lemma silent_all_obs:
  "\<forall>e \<in> set es. silent e \<Longrightarrow>
   observed es = [] \<and> acquired es = [] \<and> released es = [] \<and> resolves es = 0"
proof (induction es)
  case Nil then show ?case by simp
next
  case (Cons e es)
  then have "silent e" by simp
  then show ?case using Cons by (cases e rule: silent.cases) simp_all
qed

lemma frame_refl [simp]: "frame w w"
  by (simp add: frame_def)

lemma frame_trans: "frame w w1 \<Longrightarrow> frame w1 w2 \<Longrightarrow> frame w w2"
  by (auto simp: frame_def)

lemma frame_obs:
  assumes "frame w w'"
  shows "observed (trace w') = observed (trace w)" "acquired (trace w') = acquired (trace w)"
    "released (trace w') = released (trace w)" "resolves (trace w') = resolves (trace w)"
    "lastStatus (trace w') = lastStatus (trace w)"
proof -
  from assms obtain es where es: "trace w' = trace w @ es" "\<forall>e \<in> set es. silent e"
    by (auto simp: frame_def)
  from es(2) have "observed es = [] \<and> acquired es = [] \<and> released es = [] \<and> resolves es = 0"
    by (rule silent_all_obs)
  then show "observed (trace w') = observed (trace w)" "acquired (trace w') = acquired (trace w)"
    "released (trace w') = released (trace w)" "resolves (trace w') = resolves (trace w)"
    "lastStatus (trace w') = lastStatus (trace w)"
    using es(1) by (simp_all add: lastStatus_def)
qed

lemma frame_consistent: "frame w w' \<Longrightarrow> consistent w' = consistent w"
  using frame_obs [of w w'] by (simp add: consistent_def held_def frame_def)

lemma frame_quiet: "frame w w' \<Longrightarrow> quiet w w'"
  using frame_consistent [of w w'] frame_obs [of w w'] by (simp add: quiet_def frame_def)

lemma quiet_refl [simp]: "quiet w w"
  by (simp add: quiet_def)

lemma quiet_trans: "quiet w w1 \<Longrightarrow> quiet w1 w2 \<Longrightarrow> quiet w w2"
  by (simp add: quiet_def)

lemma frame_effect: "silent e \<Longrightarrow> frame w (effect e w)"
  by (simp add: frame_def effect_def)


lemma silent_suffix_obs:
  assumes "trace w' = trace w @ es" "\<forall>e \<in> set es. silent e"
  shows "observed (trace w') = observed (trace w) \<and> acquired (trace w') = acquired (trace w)
    \<and> released (trace w') = released (trace w) \<and> resolves (trace w') = resolves (trace w)
    \<and> lastStatus (trace w') = lastStatus (trace w)"
  using silent_all_obs [OF assms(2)] assms(1) by (simp add: lastStatus_def)

lemma attached_obs:
  assumes "\<not> isDisposed w"
  shows "observed (trace (attached s w)) = observed (trace w)
    \<and> acquired (trace (attached s w)) = acquired (trace w)
    \<and> released (trace (attached s w)) = released (trace w)
    \<and> resolves (trace (attached s w)) = resolves (trace w)
    \<and> lastStatus (trace (attached s w)) = lastStatus (trace w)"
  by (rule silent_suffix_obs [OF attached_trace [OF assms]]) (auto split: option.splits)

lemma quiet_attached:
  assumes "\<not> isDisposed w"
  shows "quiet w (attached s w)"
proof -
  have "consistent (attached s w)" if c: "consistent w"
  proof -
    from c have "\<forall>c \<in> set (slots w). session w = Some (fst c)"
      by (simp add: consistent_def)
    then have e: "{c \<in> set (slots w). session w \<noteq> Some (fst c)} = {}"
      by blast
    have sl: "set (slots (attached s w)) = Pair s ` set sessionChannels"
      by (simp only: attached_fields(11) [OF assms] e Un_empty_left)
    show ?thesis
      using c assms attached_obs [OF assms, of s] sl
      by (auto simp: consistent_def held_def attached_fields)
  qed
  then show ?thesis
    using assms attached_obs [OF assms, of s] by (simp add: quiet_def attached_fields)
qed

lemma quiet_sessionDispose_current:
  "quiet w ((sessionDispose s w)\<lparr>session := None\<rparr>)" if "session w = Some s"
proof -
  have obs: "observed (trace (sessionDispose s w)) = observed (trace w)
    \<and> acquired (trace (sessionDispose s w)) = acquired (trace w)
    \<and> released (trace (sessionDispose s w)) = released (trace w)
    \<and> resolves (trace (sessionDispose s w)) = resolves (trace w)
    \<and> lastStatus (trace (sessionDispose s w)) = lastStatus (trace w)"
    by (rule silent_suffix_obs [where es = "[SessionDispose s]"]) simp_all
  have "filter (\<lambda>c. fst c \<noteq> s) (slots w) = []" if "consistent w"
    using that \<open>session w = Some s\<close> by (auto simp: consistent_def filter_empty_conv)
  then show ?thesis using obs \<open>session w = Some s\<close>
    by (auto simp: quiet_def consistent_def held_def)
qed

lemma quiet_onSessionDisposed: "quiet w (priv_onSessionDisposed w)"
proof (cases "session w")
  case None
  have "frame w (priv_onSessionDisposed w)"
    using None by (auto simp: priv_onSessionDisposed_def frame_def emit_def effect_def)
  then show ?thesis by (rule frame_quiet)
next
  case (Some s)
  have "frame ((sessionDispose s w)\<lparr>session := None\<rparr>) (priv_onSessionDisposed w)"
    using Some by (auto simp: priv_onSessionDisposed_def frame_def emit_def effect_def)
  then show ?thesis
    using quiet_sessionDispose_current [OF Some] frame_quiet quiet_trans by blast
qed

lemma quiet_onStatusChanged:
  assumes "(s, ChStatusChanged) \<in> set (slots w)"
  shows "quiet w (priv_onStatusChanged s st w)"
proof -
  have "consistent (priv_onStatusChanged s st w)" if c: "consistent w"
  proof -
    from c assms have nd: "\<not> isDisposed w" by (auto simp: consistent_def)
    show ?thesis using c nd
      by (auto simp: consistent_def priv_onStatusChanged_def held_def callSetBusy_def
          lastStatus_def emit_def effect_def Let_def less_Suc_eq split: option.splits)
  qed
  then show ?thesis
    by (auto simp: quiet_def priv_onStatusChanged_def callSetBusy_def emit_def effect_def
        Let_def split: option.splits)
qed

lemma quiet_deliver: "quiet w (deliver s ev w)"
proof (cases "(s, channelOf ev) \<in> set (slots w)")
  case False
  then show ?thesis by (simp add: deliver_def)
next
  case True
  show ?thesis
  proof (cases ev)
    case EvDisposed
    then show ?thesis using True by (simp add: deliver_def quiet_onSessionDisposed)
  next
    case (EvStatusChanged st)
    then show ?thesis using True by (simp add: deliver_def quiet_onStatusChanged)
  next
    case (EvPropertyChanged p)
    have "frame w (priv_onPropertyChanged s p w)"
      by (cases p) (simp_all add: frame_def emit_def effect_def)
    then show ?thesis using True EvPropertyChanged by (simp add: deliver_def frame_quiet)
  next
    case (EvKernelChanged a b)
    have "frame w (priv_onKernelChanged s a b w)"
      by (simp add: frame_def priv_onKernelChanged_def emit_def effect_def)
    then show ?thesis using True EvKernelChanged by (simp add: deliver_def frame_quiet)
  next
    case (EvConnectionStatusChanged c)
    have "frame w (priv_onConnectionStatusChanged s c w)"
      by (simp add: frame_def priv_onConnectionStatusChanged_def emit_def effect_def)
    then show ?thesis using True EvConnectionStatusChanged by (simp add: deliver_def frame_quiet)
  next
    case (EvIopubMessage m)
    have "frame w (priv_onIopubMessage s m w)"
      by (simp add: frame_def priv_onIopubMessage_def emit_def effect_def)
    then show ?thesis using True EvIopubMessage by (simp add: deliver_def frame_quiet)
  next
    case (EvUnhandledMessage m)
    have "frame w (priv_onUnhandledMessage s m w)"
      by (simp add: frame_def priv_onUnhandledMessage_def emit_def effect_def)
    then show ?thesis using True EvUnhandledMessage by (simp add: deliver_def frame_quiet)
  qed
qed

lemma quiet_dispose: "quiet w (dispose w)"
proof (cases "isDisposed w")
  case True
  then show ?thesis by (simp add: dispose_def)
next
  case False
  have "consistent (dispose w)" if c: "consistent w"
    using c False dispose_state [OF False] dispose_trace [OF False] dispose_disposed [of w]
    by (auto simp: consistent_def held_def lastStatus_def split: option.splits)
  then show ?thesis
    using False dispose_state [OF False] dispose_trace [OF False] dispose_disposed [of w]
    by (auto simp: quiet_def split: option.splits)
qed



lemma stateOf_tryAwait [simp]: "stateOf (tryAwait p f h) = stateOf p"
  by (cases p) simp_all

lemma requested_tryAwait [simp]:
  "(requested (tryAwait p f h) = [ManagerReady]) = (requested p = [ManagerReady])"
  by (cases p) simp_all

lemma stateOf_void [simp]: "stateOf (void p) = stateOf p"
  by (cases p) simp_all

lemma requested_void [simp]: "requested (void p) = requested p"
  by (cases p) simp_all

lemma plain_Await: "plain (Await w q k) = (\<forall>r w'. started w' \<longrightarrow> plainCall w' (k r w'))"
  by (simp add: plainCall_def plain_def)

lemma startup_Await:
  "startup (Await w q k) = (\<forall>r w'. started w' \<longrightarrow> startupCall w' (k r w'))"
  by (simp add: startupCall_def)

declare startup.simps(3) [simp del]

lemma plainCall_Return: "quiet w w' \<Longrightarrow> plainCall w (Return a w')"
  by (simp add: plainCall_def plainStep_def plain_def)

lemma plainCall_Throw: "quiet w w' \<Longrightarrow> plainCall w (Throw e w')"
  by (simp add: plainCall_def plainStep_def plain_def)

lemma plainCall_Await:
  "quiet w w' \<Longrightarrow> q \<noteq> ManagerReady \<Longrightarrow> (\<And>r w''. started w'' \<Longrightarrow> plainCall w'' (k r w''))
   \<Longrightarrow> plainCall w (Await w' q k)"
  by (simp add: plainCall_def [of w] plainStep_def plain_Await)

lemma plainCall_AwaitD:
  "plainCall w (Await w' q k) \<Longrightarrow>
   quiet w w' \<and> q \<noteq> ManagerReady \<and> (\<forall>r w''. started w'' \<longrightarrow> plainCall w'' (k r w''))"
  by (simp add: plainCall_def [of w] plainStep_def plain_Await)

lemma plainCall_quiet: "plainCall w p \<Longrightarrow> quiet w (stateOf p)"
  by (simp add: plainCall_def plainStep_def)

lemma plainCall_settle: "plainCall w (settle a r w)"
  by (cases r) (simp_all add: settle_def plainCall_Return plainCall_Throw)

lemma plainCall_pre: "quiet w w1 \<Longrightarrow> plainCall w1 p \<Longrightarrow> plainCall w p"
  using quiet_trans by (auto simp: plainCall_def plainStep_def)

lemma plainCall_tryAwait:
  assumes "plainCall w p" "\<And>a w'. started w' \<Longrightarrow> plainCall w' (f a w')"
    "\<And>e w'. started w' \<Longrightarrow> plainCall w' (h e w')"
  shows "plainCall w (tryAwait p f h)"
  using assms(1)
proof (induction p arbitrary: w)
  case (Return a w1)
  then have "quiet w w1" by (simp add: plainCall_quiet [of w "Return a w1", simplified])
  then show ?case using assms(2) by (simp add: plainCall_Await)
next
  case (Throw e w1)
  then have "quiet w w1" by (simp add: plainCall_quiet [of w "Throw e w1", simplified])
  then show ?case using assms(3) by (simp add: plainCall_Await)
next
  case (Await w1 q k)
  from Await.prems have d: "quiet w w1" "q \<noteq> ManagerReady"
    "\<And>r w''. started w'' \<Longrightarrow> plainCall w'' (k r w'')"
    by (auto dest: plainCall_AwaitD)
  have "\<And>r w''. started w'' \<Longrightarrow> plainCall w'' (tryAwait (k r w'') f h)"
    using Await.IH d(3) by (meson rangeI)
  then show ?case using d by (simp add: plainCall_Await)
qed

lemma plainCall_await:
  "plainCall w p \<Longrightarrow> (\<And>a w'. started w' \<Longrightarrow> plainCall w' (f a w')) \<Longrightarrow> plainCall w (await p f)"
  unfolding await_def by (rule plainCall_tryAwait) (simp_all add: plainCall_Throw)

lemma plainCall_void: "plainCall w p \<Longrightarrow> plainCall w (void p)"
proof (induction p arbitrary: w)
  case (Await w1 q k)
  from Await.prems have d: "quiet w w1" "q \<noteq> ManagerReady"
    "\<And>r w''. started w'' \<Longrightarrow> plainCall w'' (k r w'')"
    by (auto dest: plainCall_AwaitD)
  have "\<And>r w''. started w'' \<Longrightarrow> plainCall w'' (void (k r w''))"
    using Await.IH d(3) by (meson rangeI)
  then show ?case using d by (simp add: plainCall_Await)
qed (simp_all add: plainCall_def plainStep_def plain_def)

lemma quiet_handleSessionError: "quiet w (priv_handleSessionError err w)"
  by (simp add: priv_handleSessionError_def frame_quiet frame_effect)

lemma quiet_dialog: "quiet w (w\<lparr>dialog := d\<rparr>)"
  by (rule frame_quiet) (simp add: frame_def)

lemma quiet_dialogDispose: "quiet w ((effect DialogDispose w)\<lparr>dialog := d\<rparr>)"
  by (rule frame_quiet) (simp add: frame_def effect_def)

lemma handleNewSession_cases:
  "(priv_handleNewSession s w = Inl Disposed \<and> isDisposed w)
   \<or> (\<exists>kconn. priv_handleNewSession s w = Inr (kconn, attached s w) \<and> \<not> isDisposed w)"
  by (cases "isDisposed w") (simp_all add: handleNewSession_Inr handleNewSession_Inl)

lemma plainCall_shutdown: "plainCall w (shutdown w)"
  by (auto simp: shutdown_def intro!: plainCall_Return plainCall_Await plainCall_settle
      split: option.splits)

lemma plainCall_startSession: "plainCall w (priv_startSession model w)"
proof -
  have "plainCall w1
          (case r of
             Resolved (PSession s) \<Rightarrow>
               (case priv_handleNewSession s w1 of
                  Inr (kconn, w2) \<Rightarrow> Return kconn w2
                | Inl err \<Rightarrow> Throw err (priv_handleSessionError err w1))
           | Resolved other \<Rightarrow> Throw IllTyped (priv_handleSessionError IllTyped w1)
           | Rejected err \<Rightarrow> Throw err (priv_handleSessionError err w1))" for r w1
  proof (cases r)
    case (Rejected err)
    then show ?thesis by (simp add: plainCall_Throw quiet_handleSessionError)
  next
    case (Resolved p)
    show ?thesis
    proof (cases p)
      case (PSession s)
      then show ?thesis
        using Resolved handleNewSession_cases [of s w1]
        by (auto simp: plainCall_Throw plainCall_Return quiet_handleSessionError quiet_attached)
    qed (simp_all add: Resolved plainCall_Throw quiet_handleSessionError)
  qed
  then show ?thesis
    by (simp add: priv_startSession_def plainCall_Throw plainCall_Await)
qed

lemma plainCall_changeKernel_priv: "plainCall w (priv_changeKernel options w)"
proof -
  have "plainCall w1
          (case r of
             Resolved (PKernel kconn) \<Rightarrow> Return kconn w1
           | Resolved other \<Rightarrow> Throw IllTyped w1
           | Rejected err \<Rightarrow> Throw err w1)" for r w1
    by (auto simp: plainCall_Throw plainCall_Return split: Response.splits Payload.splits)
  then show ?thesis
    by (auto simp: priv_changeKernel_def plainCall_Throw plainCall_startSession
        intro!: plainCall_Await split: option.splits)
qed

lemma plainCall_selectKernel_priv: "plainCall w (priv_selectKernel cancelable w)"
proof -
  have "plainCall w1
          (case r of
             Resolved (PDialog accept model) \<Rightarrow>
               let w2 = (effect DialogDispose w1)\<lparr>dialog := None\<rparr> in
               if isDisposed w2 \<or> \<not> accept then Return () w2
               else
                 (case model of
                    None \<Rightarrow>
                      if session w2 \<noteq> None
                      then await (shutdown w2) (\<lambda>u w3. Return () w3)
                      else Return () w2
                  | Some m \<Rightarrow> await (priv_changeKernel m w2) (\<lambda>kconn w3. Return () w3))
           | Resolved other \<Rightarrow> Throw IllTyped w1
           | Rejected err \<Rightarrow> Throw err w1)" for r w1
  proof (cases r)
    case (Rejected err)
    then show ?thesis by (simp add: plainCall_Throw)
  next
    case (Resolved p)
    show ?thesis
    proof (cases p)
      case (PDialog accept model)
      let ?w2 = "(effect DialogDispose w1)\<lparr>dialog := None\<rparr>"
      have q: "quiet w1 ?w2" by (rule quiet_dialogDispose)
      have a: "plainCall w1 (await (shutdown ?w2) (\<lambda>u w3. Return () w3))"
        by (rule plainCall_pre [OF q])
          (simp add: plainCall_await plainCall_shutdown plainCall_Return)
      have b: "plainCall w1 (await (priv_changeKernel m ?w2) (\<lambda>kconn w3. Return () w3))" for m
        by (rule plainCall_pre [OF q])
          (simp add: plainCall_await plainCall_changeKernel_priv plainCall_Return)
      show ?thesis
        using Resolved PDialog q a b
        by (auto simp: Let_def plainCall_Return split: option.splits)
    qed (simp_all add: Resolved plainCall_Throw)
  qed
  then show ?thesis
    by (simp add: priv_selectKernel_def plainCall_Return plainCall_Await quiet_dialog)
qed

lemma plainCall_select_fallback:
  "plainCall w1 (await (priv_selectKernel False w1) (\<lambda>u w2. Return () w2))"
  by (simp add: plainCall_await plainCall_selectKernel_priv plainCall_Return)

lemma plainCall_startIfNecessary: "plainCall w (priv_startIfNecessary w)"
proof -
  have b: "plainCall w
             (tryAwait (priv_changeKernel opts w) (\<lambda>kconn w1. Return () w1)
               (\<lambda>err w1. await (priv_selectKernel False w1) (\<lambda>u w2. Return () w2)))" for opts
  proof (rule plainCall_tryAwait)
    show "plainCall w (priv_changeKernel opts w)" by (rule plainCall_changeKernel_priv)
    show "plainCall w' (Return () w')" for w' by (simp add: plainCall_Return)
    show "plainCall w' (await (priv_selectKernel False w') (\<lambda>u w2. Return () w2))" for w'
      by (rule plainCall_select_fallback)
  qed
  show ?thesis
    using plainCall_select_fallback b
    by (auto simp: priv_startIfNecessary_def Let_def plainCall_Return split: option.splits)
qed

lemma plainCall_initialize: "started w \<Longrightarrow> plainCall w (initialize w)"
  by (auto simp: initialize_def started_def intro!: plainCall_Await plainCall_settle)

lemma plainCall_restartKernel: "plainCall w (restartKernel kconn w)"
proof -
  have "plainCall w1
          (case r of
            Resolved (PDialog accept model) \<Rightarrow>
              if k_isDisposed (kernelObj w1 kconn) then Return False w1
              else if accept then Await w1 (KernelRestart kconn) (settle True)
              else Return False w1
          | Resolved other \<Rightarrow> Throw IllTyped w1
          | Rejected err \<Rightarrow> Throw err w1)" for r w1
    by (auto simp: plainCall_Throw plainCall_Return intro!: plainCall_Await plainCall_settle
        split: Response.splits Payload.splits)
  then show ?thesis
    by (simp add: restartKernel_def plainCall_Await)
qed

text \<open>What the public methods do once \<open>initialize\<close> has settled.\<close>

lemma plainCall_changeKernel_rest:
  "plainCall w1 (if isDisposed w1 then Throw Disposed w1 else priv_changeKernel options w1)"
  by (simp add: plainCall_Throw plainCall_changeKernel_priv)

lemma plainCall_selectKernel_rest:
  "plainCall w1 (if isDisposed w1 then Throw Disposed w1 else priv_selectKernel True w1)"
  by (simp add: plainCall_Throw plainCall_selectKernel_priv)

lemma plainCall_changeKernel: "started w \<Longrightarrow> plainCall w (changeKernel options w)"
  unfolding changeKernel_def
  by (rule plainCall_await) (simp_all add: plainCall_initialize plainCall_changeKernel_rest)

lemma plainCall_restart_rest:
  assumes "started w1"
  shows "plainCall w1
     (if isDisposed w1 then Throw SessionAlreadyDisposed w1
      else
        case sessionKernel w1 of
          Some kconn \<Rightarrow> restartKernel kconn w1
        | None \<Rightarrow>
            if truthy (prevKernelName w1) then
              await (changeKernel \<lparr>km_id = None, km_name = prevKernelName w1\<rparr> w1)
                (\<lambda>kconn w2. Return True w2)
            else Throw NoKernelToRestart w1)"
proof -
  have "plainCall w1
          (await (changeKernel \<lparr>km_id = None, km_name = prevKernelName w1\<rparr> w1)
             (\<lambda>kconn w2. Return True w2))"
    by (rule plainCall_await) (simp_all add: plainCall_changeKernel assms plainCall_Return)
  then show ?thesis
    by (simp add: plainCall_Throw plainCall_restartKernel split: option.splits)
qed

lemma plain_startup: "plain p \<Longrightarrow> startup p"
proof (induction p)
  case (Await w q k)
  then have "\<And>r w'. started w' \<Longrightarrow> plainCall w' (k r w')" by (simp add: plain_Await)
  then have "\<And>r w'. started w' \<Longrightarrow> plainStep w' (k r w') \<and> startup (k r w')"
    using Await.IH by (metis plainCall_def rangeI)
  then show ?case by (simp add: startup.simps(3))
qed simp_all

lemma plainCall_startupCall: "plainCall w p \<Longrightarrow> startupCall w p"
  by (simp add: plainCall_def startupCall_def plain_startup)

lemma startupCall_cases:
  assumes "startupCall w (Await w1 q k)"
  obtains (stays) "plainStep w (Await w1 q k)" "\<And>r w'. started w' \<Longrightarrow> startupCall w' (k r w')"
  | (readied) "readies w w1" "q \<noteq> ManagerReady" "\<And>r w'. started w' \<Longrightarrow> plainCall w' (k r w')"
  using assms by (auto simp: startupCall_def [of w] startup_Await plain_Await)

lemma startupCall_tryAwait:
  assumes "startupCall w p" "\<And>a w'. started w' \<Longrightarrow> plainCall w' (f a w')"
    "\<And>e w'. started w' \<Longrightarrow> plainCall w' (h e w')"
  shows "startupCall w (tryAwait p f h)"
  using assms(1)
proof (induction p arbitrary: w)
  case (Return a w1)
  have "started w' \<Longrightarrow> startupCall w' (f a w')" for w'
    by (rule plainCall_startupCall [OF assms(2)])
  then show ?case using Return assms(2)
    by (auto simp: startupCall_def [of w] plainStep_def plain_Await startup_Await)
next
  case (Throw e w1)
  have "started w' \<Longrightarrow> startupCall w' (h e w')" for w'
    by (rule plainCall_startupCall [OF assms(3)])
  then show ?case using Throw assms(3)
    by (auto simp: startupCall_def [of w] plainStep_def plain_Await startup_Await)
next
  case (Await w1 q k)
  from Await.prems show ?case
  proof (cases rule: startupCall_cases)
    case stays
    have "\<And>r w'. started w' \<Longrightarrow> startupCall w' (tryAwait (k r w') f h)"
      using Await.IH stays(2) by (meson rangeI)
    then show ?thesis using stays(1)
      by (simp add: startupCall_def [of w] startup_Await plainStep_def)
  next
    case readied
    have "\<And>r w'. started w' \<Longrightarrow> plainCall w' (tryAwait (k r w') f h)"
      using readied(3) assms(2,3) by (simp add: plainCall_tryAwait)
    then show ?thesis using readied(1,2)
      by (simp add: startupCall_def [of w] plain_Await)
  qed
qed

lemma startupCall_void: "startupCall w p \<Longrightarrow> startupCall w (void p)"
proof (induction p arbitrary: w)
  case (Await w1 q k)
  from Await.prems show ?case
  proof (cases rule: startupCall_cases)
    case stays
    have "\<And>r w'. started w' \<Longrightarrow> startupCall w' (void (k r w'))"
      using Await.IH stays(2) by (meson rangeI)
    then show ?thesis using stays(1)
      by (simp add: startupCall_def [of w] startup_Await plainStep_def)
  next
    case readied
    have "\<And>r w'. started w' \<Longrightarrow> plainCall w' (void (k r w'))"
      using readied(3) by (simp add: plainCall_void)
    then show ?thesis using readied(1,2)
      by (simp add: startupCall_def [of w] plain_Await)
  qed
qed (simp_all add: startupCall_def plainStep_def plain_def)

text \<open>A plain call followed by the step that makes the context ready.\<close>

lemma startupCall_then:
  assumes "plainCall w p" "\<And>a w'. started w' \<Longrightarrow> startupCall w' (f a w')"
    "\<And>e w'. started w' \<Longrightarrow> startupCall w' (h e w')"
  shows "plainStep w (tryAwait p f h) \<and> startup (tryAwait p f h)"
  using assms(1)
proof (induction p arbitrary: w)
  case (Return a w1)
  then show ?case using assms(2)
    by (simp add: plainCall_def plainStep_def startup_Await)
next
  case (Throw e w1)
  then show ?case using assms(3)
    by (simp add: plainCall_def plainStep_def startup_Await)
next
  case (Await w1 q k)
  from Await.prems have d: "quiet w w1" "q \<noteq> ManagerReady"
    "\<And>r w''. started w'' \<Longrightarrow> plainCall w'' (k r w'')"
    by (auto dest: plainCall_AwaitD)
  have "\<And>r w'. started w' \<Longrightarrow>
          plainStep w' (tryAwait (k r w') f h) \<and> startup (tryAwait (k r w') f h)"
    using Await.IH d(3) by (meson rangeI)
  then show ?case using d(1,2) by (simp add: plainStep_def startup_Await startupCall_def)
qed

lemma readies_resolve:
  "readies w (effect ReadyResolve (w\<lparr>isReady := True, ready := True\<rparr>))"
  by (auto simp: readies_def effect_def consistent_def held_def lastStatus_def)

lemma initialize_first:
  "\<not> started w \<Longrightarrow>
   initialize w = Await (w\<lparr>initializing := True\<rparr>) ManagerReady afterManagerReady"
  by (simp add: initialize_def started_def)

lemma initialize_joined:
  "started w \<Longrightarrow> initialize w = Await w ReadyPromise (settle ())"
  by (simp add: initialize_def started_def)

lemma startupCall_finish:
  assumes q: "quiet w1 w2"
  shows "startupCall w1
     (await (priv_startIfNecessary w2)
        (\<lambda>u w3. Return () (effect ReadyResolve (w3\<lparr>isReady := True, ready := True\<rparr>))))"
proof -
  have "plainStep w2 (await (priv_startIfNecessary w2)
        (\<lambda>u w3. Return () (effect ReadyResolve (w3\<lparr>isReady := True, ready := True\<rparr>))))
     \<and> startup (await (priv_startIfNecessary w2)
        (\<lambda>u w3. Return () (effect ReadyResolve (w3\<lparr>isReady := True, ready := True\<rparr>))))"
    unfolding await_def
  proof (rule startupCall_then)
    show "plainCall w2 (priv_startIfNecessary w2)" by (rule plainCall_startIfNecessary)
    show "startupCall w' (Return () (effect ReadyResolve (w'\<lparr>isReady := True, ready := True\<rparr>)))" for w'
      by (simp add: startupCall_def readies_resolve plain_def)
    show "startupCall w' (Throw e w')" for e w'
      by (simp add: plainCall_startupCall plainCall_Throw)
  qed
  then show ?thesis using q quiet_trans by (auto simp: startupCall_def plainStep_def)
qed

lemma startupCall_afterManagerReady: "startupCall w1 (afterManagerReady r w1)"
proof (cases r)
  case (Rejected err)
  then show ?thesis
    by (simp add: afterManagerReady_def plainCall_startupCall plainCall_Throw)
next
  case (Resolved p)
  show ?thesis
  proof (cases "find (\<lambda>item. m_path item = cpath w1) (managerRunning w1)")
    case None
    then show ?thesis using Resolved startupCall_finish [of w1 w1]
      by (simp add: afterManagerReady_def)
  next
    case (Some model)
    show ?thesis
    proof (cases "connectTo w1 model")
      case (Inl err)
      then show ?thesis using Resolved Some
        by (simp add: afterManagerReady_def plainCall_startupCall plainCall_Throw
            quiet_handleSessionError)
    next
      case (Inr s)
      from handleNewSession_cases [of s w1] show ?thesis
      proof (elim disjE conjE exE)
        assume "priv_handleNewSession s w1 = Inl Disposed"
        then show ?thesis using Resolved Some Inr
          by (simp add: afterManagerReady_def plainCall_startupCall plainCall_Throw
              quiet_handleSessionError)
      next
        fix kconn
        assume "priv_handleNewSession s w1 = Inr (kconn, attached s w1)" "\<not> isDisposed w1"
        then show ?thesis using Resolved Some Inr startupCall_finish [OF quiet_attached, of w1 s]
          by (simp add: afterManagerReady_def)
      qed
    qed
  qed
qed

lemma startup_initialize: "startup (initialize w)"
proof (cases "started w")
  case True
  then show ?thesis using plainCall_initialize [of w] by (simp add: plainCall_def plain_startup)
next
  case False
  then show ?thesis
    by (simp add: initialize_first startup_Await startupCall_afterManagerReady)
qed

lemma startup_tryAwait:
  assumes "startup p" "\<And>a w'. started w' \<Longrightarrow> plainCall w' (f a w')"
    "\<And>e w'. started w' \<Longrightarrow> plainCall w' (h e w')"
  shows "startup (tryAwait p f h)"
proof (cases p)
  case (Return a w)
  then show ?thesis using assms(2) by (simp add: startup_Await plainCall_startupCall)
next
  case (Throw e w)
  then show ?thesis using assms(3) by (simp add: startup_Await plainCall_startupCall)
next
  case (Await w q k)
  then have "\<And>r w'. started w' \<Longrightarrow> startupCall w' (k r w')"
    using assms(1) by (simp add: startup_Await)
  then show ?thesis using Await assms(2,3) by (simp add: startup_Await startupCall_tryAwait)
qed

lemma startup_void: "startup p \<Longrightarrow> startup (void p)"
  by (cases p) (simp_all add: startup_Await startupCall_void)


lemma segs_weaken:
  "segs A Q p \<Longrightarrow> (\<And>w. B w \<Longrightarrow> A w) \<Longrightarrow> segs B Q p"
proof (induction p)
  case (Await w q k)
  then show ?case by (simp, meson rangeI)
qed simp_all

lemma plainAlways_plain: "plainAlways p \<Longrightarrow> plain p"
  unfolding plainAlways_def plain_def by (erule segs_weaken) simp

lemma plainAlways_shutdown: "plainAlways (shutdown w)"
  by (auto simp: plainAlways_def shutdown_def settle_def plainStep_def
      split: option.splits Response.splits)

lemma plainAlways_AwaitD:
  "plainAlways (Await w q k) \<Longrightarrow> plainStep w' (k r w') \<and> plainAlways (k r w')"
  by (simp add: plainAlways_def)

lemma count_requested:
  "requested p \<noteq> [ManagerReady] \<Longrightarrow> count_list (requested p) ManagerReady = 0"
  by (cases p) auto

lemma invoke_joined:
  assumes "started w"
  shows "plainCall w (invoke c w)"
proof (cases c)
  case Initialize
  then show ?thesis using assms by (simp add: plainCall_initialize)
next
  case (ChangeKernel options)
  then show ?thesis using assms by (simp add: plainCall_void plainCall_changeKernel)
next
  case SelectKernel
  have "plainCall w (selectKernel w)"
    unfolding selectKernel_def
    by (rule plainCall_await) (simp_all add: plainCall_initialize assms plainCall_selectKernel_rest)
  then show ?thesis using SelectKernel by simp
next
  case Restart
  have "plainCall w (restart w)"
    unfolding restart_def
  proof (rule plainCall_await)
    show "plainCall w (initialize w)" using assms by (rule plainCall_initialize)
  qed (rule plainCall_restart_rest)
  then show ?thesis using Restart by (simp add: plainCall_void)
next
  case Shutdown
  then show ?thesis by (simp add: plainCall_shutdown)
qed

lemma startup_invoke: "startup (invoke c w)"
proof (cases c)
  case Initialize
  then show ?thesis by (simp add: startup_initialize)
next
  case (ChangeKernel options)
  have "startup (changeKernel options w)"
    unfolding changeKernel_def await_def
    by (rule startup_tryAwait)
      (simp_all add: startup_initialize plainCall_changeKernel_rest plainCall_Throw)
  then show ?thesis using ChangeKernel by (simp add: startup_void)
next
  case SelectKernel
  have "startup (selectKernel w)"
    unfolding selectKernel_def await_def
    by (rule startup_tryAwait)
      (simp_all add: startup_initialize plainCall_selectKernel_rest plainCall_Throw)
  then show ?thesis using SelectKernel by simp
next
  case Restart
  have "startup (restart w)"
    unfolding restart_def await_def [of "initialize w"]
  proof (rule startup_tryAwait)
    show "startup (initialize w)" by (rule startup_initialize)
    show "plainCall w' (Throw e w')" for e w' by (simp add: plainCall_Throw)
  qed (rule plainCall_restart_rest)
  then show ?thesis using Restart by (simp add: startup_void)
next
  case Shutdown
  then show ?thesis using plainCall_shutdown [of w] by (simp add: plainCall_def plain_startup)
qed

lemma invoke_fresh:
  assumes "\<not> started w" "c \<noteq> Shutdown"
  shows "stateOf (invoke c w) = w\<lparr>initializing := True\<rparr> \<and> requested (invoke c w) = [ManagerReady]"
  using assms
  by (cases c)
    (simp_all add: initialize_first changeKernel_def selectKernel_def restart_def await_def)


lemma quiet_consistent: "quiet w w' \<Longrightarrow> consistent w \<Longrightarrow> consistent w'"
  by (simp add: quiet_def)

lemma quiet_started: "quiet w w' \<Longrightarrow> started w' = started w"
  by (simp add: quiet_def started_def)

lemma quiet_advances: "quiet w w' \<Longrightarrow> advances w w'"
  by (simp add: quiet_def advances_def readyState_def)

lemma wellRun_quiet:
  assumes "wellRun sys" "quiet (world sys) w'"
  shows "wellRun (sys\<lparr>world := w'\<rparr>)"
  using assms quiet_started [OF assms(2)]
  by (auto simp: wellRun_def quiet_def)

lemma onlyPlain_append: "onlyPlain ps \<Longrightarrow> plain p \<Longrightarrow> onlyPlain (ps @ [p])"
  by (simp add: onlyPlain_def)

lemma onlyPlain_update: "onlyPlain ps \<Longrightarrow> plain p \<Longrightarrow> onlyPlain (ps[i := p])"
  by (auto simp: onlyPlain_def dest: set_update_subset_insert [THEN subsetD])

lemma oneStartup_append: "oneStartup ps \<Longrightarrow> plain p \<Longrightarrow> oneStartup (ps @ [p])"
proof -
  assume a: "oneStartup ps" "plain p"
  then obtain i where i: "i < length ps" "startup (ps ! i)"
    "\<forall>j < length ps. j \<noteq> i \<longrightarrow> plain (ps ! j)"
    by (auto simp: oneStartup_def)
  have "\<forall>j < length (ps @ [p]). j \<noteq> i \<longrightarrow> plain ((ps @ [p]) ! j)"
    using i(3) a(2) by (auto simp: nth_append less_Suc_eq)
  then show ?thesis using i(1,2) unfolding oneStartup_def
    by (intro exI [of _ i]) (simp add: nth_append)
qed

lemma onlyPlain_startup_append: "onlyPlain ps \<Longrightarrow> startup p \<Longrightarrow> oneStartup (ps @ [p])"
  unfolding oneStartup_def onlyPlain_def
  by (intro exI [of _ "length ps"]) (auto simp: nth_append)

lemma wellRun_spawn_plain:
  assumes "wellRun sys" "started (world sys)" "plainCall (world sys) p"
  shows "wellRun (spawn p sys)"
proof -
  have q: "quiet (world sys) (stateOf p)" and r: "requested p \<noteq> [ManagerReady]"
    and pl: "plain p"
    using assms(3) by (simp_all add: plainCall_def plainStep_def)
  show ?thesis
    using assms(1,2) q quiet_started [OF q] count_requested [OF r] pl
    by (auto simp: wellRun_def spawn_def quiet_def onlyPlain_append oneStartup_append)
qed

lemma wellRun_spawn_always:
  assumes "wellRun sys" "\<not> started (world sys)" "plainStep (world sys) p" "plainAlways p"
  shows "wellRun (spawn p sys)"
proof -
  have q: "quiet (world sys) (stateOf p)" and r: "requested p \<noteq> [ManagerReady]"
    using assms(3) by (simp_all add: plainStep_def)
  show ?thesis
    using assms(1,2,4) q quiet_started [OF q] count_requested [OF r]
    by (auto simp: wellRun_def spawn_def quiet_def)
qed

lemma consistent_initializing [simp]:
  "consistent (w\<lparr>initializing := b\<rparr>) = consistent w"
  by (simp add: consistent_def held_def)

lemma wellRun_spawn_startup:
  assumes "wellRun sys" "\<not> started (world sys)"
    "stateOf p = (world sys)\<lparr>initializing := True\<rparr>" "requested p = [ManagerReady]" "startup p"
  shows "wellRun (spawn p sys)"
proof -
  have "onlyPlain (calls sys)"
    using assms(1,2) by (simp add: wellRun_def onlyPlain_def plainAlways_plain)
  then have "oneStartup (calls sys @ [p])"
    using assms(5) by (rule onlyPlain_startup_append)
  then show ?thesis
    using assms(1-4) by (simp add: wellRun_def spawn_def started_def)
qed

lemma advances_initializing:
  "\<not> started w \<Longrightarrow> advances w (w\<lparr>initializing := True\<rparr>)"
  by (simp add: advances_def readyState_def started_def)

lemma wellRun_invoke:
  assumes "wellRun sys"
  shows "wellRun (spawn (invoke c (world sys)) sys)
     \<and> advances (world sys) (stateOf (invoke c (world sys)))"
proof (cases "started (world sys)")
  case True
  then show ?thesis
    using assms invoke_joined [OF True, of c]
    by (simp add: wellRun_spawn_plain plainCall_quiet quiet_advances)
next
  case False
  show ?thesis
  proof (cases "c = Shutdown")
    case True
    then show ?thesis
      using assms False plainCall_shutdown [of "world sys"] plainAlways_shutdown [of "world sys"]
      by (simp add: wellRun_spawn_always plainCall_def plainStep_def quiet_advances)
  next
    case ns: False
    then show ?thesis
      using assms False invoke_fresh [OF False ns] startup_invoke [of c "world sys"]
      by (simp add: wellRun_spawn_startup advances_initializing)
  qed
qed


lemma oneStartup_update_other:
  assumes "oneStartup ps" "i < length ps" "plain (ps ! i)" "plain p" "\<not> onlyPlain ps"
  shows "oneStartup (ps[i := p])"
proof -
  from assms(1) obtain i0 where i0: "i0 < length ps" "startup (ps ! i0)"
    "\<forall>j < length ps. j \<noteq> i0 \<longrightarrow> plain (ps ! j)"
    by (auto simp: oneStartup_def)
  have "i \<noteq> i0"
  proof
    assume "i = i0"
    then have "\<forall>j < length ps. plain (ps ! j)" using i0(3) assms(3) by metis
    then have "onlyPlain ps" by (auto simp: onlyPlain_def in_set_conv_nth)
    then show False using assms(5) by simp
  qed
  then show ?thesis using i0 assms(2,4) unfolding oneStartup_def
    by (intro exI [of _ i0]) (auto simp: nth_list_update)
qed

text \<open>The calls of a well-run system, seen from one of them.\<close>

lemma wellRun_call_cases:
  assumes "wellRun sys" "i < length (calls sys)"
  obtains (always) "\<not> started (world sys)" "\<forall>p \<in> set (calls sys). plainAlways p"
  | (plain) "started (world sys)" "plain (calls sys ! i)"
      "\<And>p. plain p \<Longrightarrow>
         onlyPlain ((calls sys)[i := p])
         \<or> (initializing (world sys) \<and> \<not> isReady (world sys) \<and> oneStartup ((calls sys)[i := p]))"
  | (startup) "started (world sys)" "initializing (world sys)" "\<not> isReady (world sys)"
      "startup (calls sys ! i)"
      "\<And>p. startup p \<Longrightarrow> oneStartup ((calls sys)[i := p])"
      "\<And>p. plain p \<Longrightarrow> onlyPlain ((calls sys)[i := p])"
proof (cases "started (world sys)")
  case False
  then show ?thesis using assms(1) always by (simp add: wellRun_def)
next
  case True
  show ?thesis
  proof (cases "onlyPlain (calls sys)")
    case op: True
    then have "plain (calls sys ! i)" using assms(2) by (simp add: onlyPlain_def)
    then show ?thesis using True op plain by (simp add: onlyPlain_update)
  next
    case nop: False
    then have st: "initializing (world sys)" "\<not> isReady (world sys)" "oneStartup (calls sys)"
      using assms(1) True by (auto simp: wellRun_def)
    then obtain i0 where i0: "i0 < length (calls sys)" "startup (calls sys ! i0)"
      "\<forall>j < length (calls sys). j \<noteq> i0 \<longrightarrow> plain (calls sys ! j)"
      by (auto simp: oneStartup_def)
    show ?thesis
    proof (cases "i = i0")
      case False
      then have "plain (calls sys ! i)" using i0(3) assms(2) by simp
      then show ?thesis
        using True st nop assms(2) plain by (simp add: oneStartup_update_other)
    next
      case eq: True
      have a: "oneStartup ((calls sys)[i := p])" if "startup p" for p
        unfolding oneStartup_def using that i0 eq
        by (intro exI [of _ i0]) (auto simp: nth_list_update)
      have b: "onlyPlain ((calls sys)[i := p])" if "plain p" for p
        unfolding onlyPlain_def using that i0 eq
        by (auto simp: in_set_conv_nth nth_list_update)
      show ?thesis using True st i0(2) eq a b startup by simp
    qed
  qed
qed

lemma readies_advances: "readies w w' \<Longrightarrow> initializing w \<Longrightarrow> \<not> isReady w \<Longrightarrow> advances w w'"
  by (simp add: readies_def advances_def readyState_def)

lemma wellRun_resume:
  assumes wr: "wellRun sys"
  shows "wellRun (resume i r sys) \<and> advances (world sys) (world (resume i r sys))"
proof (cases "i < length (calls sys)")
  case False
  then show ?thesis using wr by (simp add: resume_def advances_def)
next
  case len: True
  show ?thesis
  proof (cases "calls sys ! i")
    case (Return a w)
    then show ?thesis using wr len by (simp add: resume_def advances_def)
  next
    case (Throw e w)
    then show ?thesis using wr len by (simp add: resume_def advances_def)
  next
    case (Await w0 q k)
    show ?thesis
    proof (cases "answers (world sys) q r")
      case False
      then show ?thesis using wr len Await by (simp add: resume_def advances_def)
    next
      case ans: True
      let ?w = "world sys"
      let ?p = "k r ?w"
      have res: "resume i r sys =
                   sys\<lparr>world := stateOf ?p, calls := (calls sys)[i := ?p],
                       requests := requests sys @ requested ?p,
                       answered := answered sys @ [(q, r)]\<rparr>"
        using len Await ans by (simp add: resume_def Let_def)
      from wr len show ?thesis
      proof (cases rule: wellRun_call_cases)
        case always
        then have "plainAlways (Await w0 q k)" using len Await by (metis nth_mem)
        then have p: "plainStep ?w ?p" "plainAlways ?p" by (auto dest: plainAlways_AwaitD)
        then have q: "quiet ?w (stateOf ?p)" and rq: "requested ?p \<noteq> [ManagerReady]"
          by (simp_all add: plainStep_def)
        have "\<forall>p \<in> set ((calls sys)[i := ?p]). plainAlways p"
          using always(2) p(2) by (auto dest: set_update_subset_insert [THEN subsetD])
        then show ?thesis
          using wr always(1) q quiet_started [OF q] count_requested [OF rq]
          by (auto simp: res wellRun_def quiet_def quiet_advances)
      next
        case plain
        then have "plainCall ?w ?p" using Await by (simp add: plain_Await)
        then have q: "quiet ?w (stateOf ?p)" and rq: "requested ?p \<noteq> [ManagerReady]"
          and pl: "plain ?p"
          by (simp_all add: plainCall_def plainStep_def)
        show ?thesis
          using wr plain(1) plain(3) [OF pl] q quiet_started [OF q] count_requested [OF rq]
          by (auto simp: res wellRun_def quiet_def quiet_advances)
      next
        case startup
        then have "startupCall ?w ?p" using Await by (simp add: startup_Await)
        then consider
          (stays) "plainStep ?w ?p" "startup ?p"
          | (readied) "readies ?w (stateOf ?p)" "requested ?p \<noteq> [ManagerReady]" "plain ?p"
          by (auto simp: startupCall_def)
        then show ?thesis
        proof cases
          case stays
          then have q: "quiet ?w (stateOf ?p)" and rq: "requested ?p \<noteq> [ManagerReady]"
            by (simp_all add: plainStep_def)
          show ?thesis
            using wr startup(1-3) startup(5) [OF stays(2)] q quiet_started [OF q]
              count_requested [OF rq]
            by (auto simp: res wellRun_def quiet_def quiet_advances)
        next
          case readied
          show ?thesis
            using wr startup(1-3) startup(6) [OF readied(3)] readied(1)
              count_requested [OF readied(2)] readies_advances [OF readied(1)]
            by (auto simp: res wellRun_def readies_def started_def)
        qed
      qed
    qed
  qed
qed

lemma quiet_preference: "quiet w (w\<lparr>kernelPreference := p\<rparr>)"
  by (rule frame_quiet) (simp add: frame_def)

lemma quiet_service:
  "quiet w (w\<lparr>sessionObj := so, kernelObj := ko, managerRunning := rn, connectTo := ct,
            managerSpecs := sp\<rparr>)"
  by (rule frame_quiet) (simp add: frame_def)

lemma wellRun_perform:
  assumes "wellRun sys"
  shows "wellRun (perform a sys) \<and> advances (world sys) (world (perform a sys))"
proof (cases a)
  case (Invoke c)
  then show ?thesis using wellRun_invoke [OF assms, of c] by (simp add: spawn_def)
next
  case (Resume i r)
  then show ?thesis using wellRun_resume [OF assms, of i r] by simp
next
  case (Emits s ev)
  have q: "quiet (world sys) (deliver s ev (world sys))" by (rule quiet_deliver)
  show ?thesis using wellRun_quiet [OF assms q] q Emits by (simp add: quiet_advances)
next
  case Disposes
  have q: "quiet (world sys) (dispose (world sys))" by (rule quiet_dispose)
  show ?thesis using wellRun_quiet [OF assms q] q Disposes by (simp add: quiet_advances)
next
  case (SetsPreference p)
  have q: "quiet (world sys) ((world sys)\<lparr>kernelPreference := p\<rparr>)" by (rule quiet_preference)
  show ?thesis using wellRun_quiet [OF assms q] q SetsPreference by (simp add: quiet_advances)
next
  case (Service so ko rn ct sp)
  have q: "quiet (world sys)
             ((world sys)\<lparr>sessionObj := so, kernelObj := ko, managerRunning := rn,
                          connectTo := ct, managerSpecs := sp\<rparr>)"
    by (rule quiet_service)
  show ?thesis using wellRun_quiet [OF assms q] q Service by (simp add: quiet_advances)
qed

lemma execute_append: "execute (acts @ acts') sys = execute acts' (execute acts sys)"
  by (simp add: execute_def)

lemma wellRun_execute: "wellRun sys \<Longrightarrow> wellRun (execute acts sys)"
proof (induction acts arbitrary: sys)
  case Nil
  then show ?case by (simp add: execute_def)
next
  case (Cons a acts)
  have "wellRun (perform a sys)" using wellRun_perform [OF Cons.prems] by simp
  then have "wellRun (execute acts (perform a sys))" by (rule Cons.IH)
  then show ?case by (simp add: execute_def)
qed

lemma wellRun_start: "wellRun (start options uuid env)"
  by (simp add: wellRun_def start_def construct_def consistent_def held_def lastStatus_def
      started_def)



section \<open>Sessions created before the context is ready\<close>


lemma anyState [simp]: "anyState w"
  by (simp add: anyState_def)




lemma budget_ReadyPromise [simp]: "budget n R (Await w ReadyPromise k)"
  by (auto simp: unready_def)




lemma budget_shutdown: "budget 0 anyState (shutdown w)"
  by (auto simp: shutdown_def settle_def split: option.splits Response.splits)















lemma budget_invoke_shutdown: "budget 0 anyState (invoke Shutdown w)"
  by (simp add: budget_shutdown)





lemma past_self [simp]: "past p (stateOf p)"
  by (simp add: past_def)

lemma creations_answered [simp]:
  "creations (sys\<lparr>answered := answered sys @ [(q, r)]\<rparr>) =
     creations sys + (if isCreation (q, r) then 1 else 0)"
  by (simp add: creations_def)

lemma creations_fields [simp]:
  "creations (sys\<lparr>world := w\<rparr>) = creations sys"
  "creations (sys\<lparr>calls := ps\<rparr>) = creations sys"
  "creations (sys\<lparr>requests := qs\<rparr>) = creations sys"
  by (simp_all add: creations_def)















section \<open>Reachable states\<close>

lemma keeps_execute:
  "wellRun sys \<Longrightarrow>
   setBusy (world (execute acts sys)) = setBusy (world sys)
   \<and> (isDisposed (world sys) \<longrightarrow> isDisposed (world (execute acts sys)))"
proof (induction acts arbitrary: sys)
  case Nil
  then show ?case by (simp add: execute_def)
next
  case (Cons a acts)
  have w: "wellRun (perform a sys)" and
    r: "advances (world sys) (world (perform a sys))"
    using wellRun_perform [OF Cons.prems, of a] by simp_all
  from Cons.IH [OF w] r show ?case by (simp add: execute_def advances_def)
qed

lemma wellRun_reachable: "wellRun (execute acts (start options uuid env))"
  by (rule wellRun_execute [OF wellRun_start])

lemma setBusy_reachable:
  "setBusy (world (execute acts (start options uuid env))) = o_setBusy options"
  using keeps_execute [OF wellRun_start, of acts options uuid env]
  by (simp add: start_def construct_def)

lemma consistent_lease:
  "consistent w \<Longrightarrow> setBusy w \<Longrightarrow>
   (busyDisposable w \<noteq> None) = (lastStatus (trace w) = Some Busy \<and> \<not> isDisposed w)
   \<and> acquired (trace w) = released (trace w) @ held w
   \<and> distinct (acquired (trace w))
   \<and> length (held w) \<le> 1"
  by (auto simp: consistent_def held_def split: option.splits)

lemma consistent_deliver_other:
  "consistent w \<Longrightarrow> session w \<noteq> Some s \<Longrightarrow> deliver s ev w = w"
  by (auto simp: consistent_def deliver_def)

lemma fulfilsReady_tryAwait:
  assumes "\<And>a w'. fulfilsReady (f a w')" "\<And>e w'. fulfilsReady (h e w')"
  shows "fulfilsReady (tryAwait p f h)"
proof (induction p)
  case (Await w q k)
  then show ?case by (simp, meson rangeI)
qed (simp_all add: assms)

lemma fulfilsReady_afterManagerReady: "fulfilsReady (afterManagerReady r w)"
proof -
  have "fulfilsReady
          (await (priv_startIfNecessary w2)
             (\<lambda>u w3. Return () (effect ReadyResolve (w3\<lparr>isReady := True, ready := True\<rparr>))))"
    for w2
    unfolding await_def by (rule fulfilsReady_tryAwait) (simp_all add: effect_def)
  then show ?thesis
    by (simp add: afterManagerReady_def Let_def split: Response.splits option.splits sum.splits)
qed

lemma fulfilsReady_initialize: "fulfilsReady (initialize w)"
proof (cases "started w")
  case True
  then show ?thesis by (auto simp: initialize_joined settle_def)
next
  case False
  then show ?thesis by (simp add: initialize_first fulfilsReady_afterManagerReady)
qed

lemma attach_failure:
  assumes "find (\<lambda>item. m_path item = cpath w) (managerRunning w) = Some model"
    and "connectTo w model = Inl err
         \<or> (\<exists>s. connectTo w model = Inr s \<and> priv_handleNewSession s w = Inl err)"
  shows "afterManagerReady (Resolved p) w = Throw err (priv_handleSessionError err w)"
  using assms by (auto simp: afterManagerReady_def)
section \<open>Calls are calm\<close>

lemma posthumous_internal: "posthumous e \<Longrightarrow> internal e"
  by (cases e rule: posthumous.cases) simp_all

lemma remains_refl: "isDisposed w \<Longrightarrow> remains w w"
  by (simp add: remains_def)

lemma remains_trans: "remains w w1 \<Longrightarrow> remains w1 w2 \<Longrightarrow> remains w w2"
  by (auto simp: remains_def)

lemma calm_refl [simp]: "calm w w"
  by (simp add: calm_def remains_def)

lemma calm_trans: "calm w w1 \<Longrightarrow> calm w1 w2 \<Longrightarrow> calm w w2"
  by (auto simp: calm_def remains_def split: if_splits)

lemma calm_disposed: "calm w w' \<Longrightarrow> isDisposed w' = isDisposed w"
  by (auto simp: calm_def remains_def split: if_splits)

lemma calm_effect: "posthumous e \<Longrightarrow> calm w (effect e w)"
  by (simp add: calm_def remains_def posthumous_internal)

lemma calm_handleSessionError: "calm w (priv_handleSessionError err w)"
  by (simp add: priv_handleSessionError_def calm_effect)

lemma calm_dialog: "calm w (w\<lparr>dialog := d\<rparr>)"
  by (simp add: calm_def remains_def)

lemma calm_dialogDispose: "calm w ((effect DialogDispose w)\<lparr>dialog := d\<rparr>)"
  by (simp add: calm_def remains_def)

lemma calm_initializing: "calm w (w\<lparr>initializing := b\<rparr>)"
  by (simp add: calm_def remains_def)

lemma calm_resolve: "calm w (effect ReadyResolve (w\<lparr>isReady := True, ready := True\<rparr>))"
  by (simp add: calm_def remains_def)

lemma calm_attached:
  assumes "\<not> isDisposed w"
  shows "calm w (attached s w)"
proof -
  have "\<forall>e \<in> set ((case session w of Some old \<Rightarrow> [SessionDispose old] | None \<Rightarrow> [])
           @ map (ConnectSlot s) sessionChannels
           @ map (\<lambda>p. Emit (PropertyChanged p)) (changedProperties s w)
           @ [Emit (KernelChanged None (s_kernel (sessionObj (attached s w) s)))]). internal e"
    by (auto split: option.splits)
  then show ?thesis
    using assms attached_trace [OF assms, of s] attached_fields(2) [OF assms, of s]
    unfolding calm_def by (simp only: if_False) blast
qed

lemma calmProc_Await: "calmProc (Await w q k) = (\<forall>r w'. calmCall w' (k r w'))"
  by (simp add: calmCall_def calmProc_def)

lemma calmCall_Return: "calm w w' \<Longrightarrow> calmCall w (Return a w')"
  by (simp add: calmCall_def calmStep_def calmProc_def)

lemma calmCall_Throw: "calm w w' \<Longrightarrow> calmCall w (Throw e w')"
  by (simp add: calmCall_def calmStep_def calmProc_def)

lemma calmCall_Await:
  "calm w w' \<Longrightarrow> (\<And>r w''. calmCall w'' (k r w'')) \<Longrightarrow> calmCall w (Await w' q k)"
  by (simp add: calmCall_def [of w] calmStep_def calmProc_Await)

lemma calmCall_AwaitD:
  "calmCall w (Await w' q k) \<Longrightarrow> calm w w' \<and> (\<forall>r w''. calmCall w'' (k r w''))"
  by (simp add: calmCall_def [of w] calmStep_def calmProc_Await)

lemma calmCall_calm: "calmCall w p \<Longrightarrow> calm w (stateOf p)"
  by (simp add: calmCall_def calmStep_def)

lemma calmCall_settle: "calmCall w (settle a r w)"
  by (cases r) (simp_all add: settle_def calmCall_Return calmCall_Throw)

lemma calmCall_pre: "calm w w1 \<Longrightarrow> calmCall w1 p \<Longrightarrow> calmCall w p"
  using calm_trans by (auto simp: calmCall_def calmStep_def)

lemma calmCall_tryAwait:
  assumes "calmCall w p" "\<And>a w'. calmCall w' (f a w')" "\<And>e w'. calmCall w' (h e w')"
  shows "calmCall w (tryAwait p f h)"
  using assms(1)
proof (induction p arbitrary: w)
  case (Return a w1)
  then have "calm w w1" by (simp add: calmCall_calm [of w "Return a w1", simplified])
  then show ?case using assms(2) by (simp add: calmCall_Await)
next
  case (Throw e w1)
  then have "calm w w1" by (simp add: calmCall_calm [of w "Throw e w1", simplified])
  then show ?case using assms(3) by (simp add: calmCall_Await)
next
  case (Await w1 q k)
  from Await.prems have d: "calm w w1" "\<And>r w''. calmCall w'' (k r w'')"
    by (auto dest: calmCall_AwaitD)
  have "\<And>r w''. calmCall w'' (tryAwait (k r w'') f h)"
    using Await.IH d(2) by (meson rangeI)
  then show ?case using d by (simp add: calmCall_Await)
qed

lemma calmCall_await:
  "calmCall w p \<Longrightarrow> (\<And>a w'. calmCall w' (f a w')) \<Longrightarrow> calmCall w (await p f)"
  unfolding await_def by (rule calmCall_tryAwait) (simp_all add: calmCall_Throw)

lemma calmCall_void: "calmCall w p \<Longrightarrow> calmCall w (void p)"
proof (induction p arbitrary: w)
  case (Await w1 q k)
  from Await.prems have d: "calm w w1" "\<And>r w''. calmCall w'' (k r w'')"
    by (auto dest: calmCall_AwaitD)
  have "\<And>r w''. calmCall w'' (void (k r w''))"
    using Await.IH d(2) by (meson rangeI)
  then show ?case using d by (simp add: calmCall_Await)
qed (simp_all add: calmCall_def calmStep_def calmProc_def)

lemma calmCall_shutdown: "calmCall w (shutdown w)"
  by (auto simp: shutdown_def intro!: calmCall_Return calmCall_Await calmCall_settle
      split: option.splits)

lemma calmCall_startSession: "calmCall w (priv_startSession model w)"
proof -
  have "calmCall w1
          (case r of
             Resolved (PSession s) \<Rightarrow>
               (case priv_handleNewSession s w1 of
                  Inr (kconn, w2) \<Rightarrow> Return kconn w2
                | Inl err \<Rightarrow> Throw err (priv_handleSessionError err w1))
           | Resolved other \<Rightarrow> Throw IllTyped (priv_handleSessionError IllTyped w1)
           | Rejected err \<Rightarrow> Throw err (priv_handleSessionError err w1))" for r w1
  proof (cases r)
    case (Rejected err)
    then show ?thesis by (simp add: calmCall_Throw calm_handleSessionError)
  next
    case (Resolved p)
    show ?thesis
    proof (cases p)
      case (PSession s)
      then show ?thesis
        using Resolved handleNewSession_cases [of s w1]
        by (auto simp: calmCall_Throw calmCall_Return calm_handleSessionError calm_attached)
    qed (simp_all add: Resolved calmCall_Throw calm_handleSessionError)
  qed
  then show ?thesis
    by (simp add: priv_startSession_def calmCall_Throw calmCall_Await)
qed

lemma calmCall_changeKernel_priv: "calmCall w (priv_changeKernel options w)"
proof -
  have "calmCall w1
          (case r of
             Resolved (PKernel kconn) \<Rightarrow> Return kconn w1
           | Resolved other \<Rightarrow> Throw IllTyped w1
           | Rejected err \<Rightarrow> Throw err w1)" for r w1
    by (auto simp: calmCall_Throw calmCall_Return split: Response.splits Payload.splits)
  then show ?thesis
    by (auto simp: priv_changeKernel_def calmCall_Throw calmCall_startSession
        intro!: calmCall_Await split: option.splits)
qed

lemma calmCall_selectKernel_priv: "calmCall w (priv_selectKernel cancelable w)"
proof -
  have "calmCall w1
          (case r of
             Resolved (PDialog accept model) \<Rightarrow>
               let w2 = (effect DialogDispose w1)\<lparr>dialog := None\<rparr> in
               if isDisposed w2 \<or> \<not> accept then Return () w2
               else
                 (case model of
                    None \<Rightarrow>
                      if session w2 \<noteq> None
                      then await (shutdown w2) (\<lambda>u w3. Return () w3)
                      else Return () w2
                  | Some m \<Rightarrow> await (priv_changeKernel m w2) (\<lambda>kconn w3. Return () w3))
           | Resolved other \<Rightarrow> Throw IllTyped w1
           | Rejected err \<Rightarrow> Throw err w1)" for r w1
  proof (cases r)
    case (Rejected err)
    then show ?thesis by (simp add: calmCall_Throw)
  next
    case (Resolved p)
    show ?thesis
    proof (cases p)
      case (PDialog accept model)
      let ?w2 = "(effect DialogDispose w1)\<lparr>dialog := None\<rparr>"
      have q: "calm w1 ?w2" by (rule calm_dialogDispose)
      have a: "calmCall w1 (await (shutdown ?w2) (\<lambda>u w3. Return () w3))"
        by (rule calmCall_pre [OF q])
          (simp add: calmCall_await calmCall_shutdown calmCall_Return)
      have b: "calmCall w1 (await (priv_changeKernel m ?w2) (\<lambda>kconn w3. Return () w3))" for m
        by (rule calmCall_pre [OF q])
          (simp add: calmCall_await calmCall_changeKernel_priv calmCall_Return)
      show ?thesis
        using Resolved PDialog q a b
        by (auto simp: Let_def calmCall_Return split: option.splits)
    qed (simp_all add: Resolved calmCall_Throw)
  qed
  then show ?thesis
    by (simp add: priv_selectKernel_def calmCall_Return calmCall_Await calm_dialog)
qed

lemma calmCall_select_fallback:
  "calmCall w1 (await (priv_selectKernel False w1) (\<lambda>u w2. Return () w2))"
  by (simp add: calmCall_await calmCall_selectKernel_priv calmCall_Return)

lemma calmCall_startIfNecessary: "calmCall w (priv_startIfNecessary w)"
proof -
  have b: "calmCall w
             (tryAwait (priv_changeKernel opts w) (\<lambda>kconn w1. Return () w1)
               (\<lambda>err w1. await (priv_selectKernel False w1) (\<lambda>u w2. Return () w2)))" for opts
  proof (rule calmCall_tryAwait)
    show "calmCall w (priv_changeKernel opts w)" by (rule calmCall_changeKernel_priv)
    show "calmCall w' (Return () w')" for w' by (simp add: calmCall_Return)
    show "calmCall w' (await (priv_selectKernel False w') (\<lambda>u w2. Return () w2))" for w'
      by (rule calmCall_select_fallback)
  qed
  show ?thesis
    using calmCall_select_fallback b
    by (auto simp: priv_startIfNecessary_def Let_def calmCall_Return split: option.splits)
qed

lemma calmCall_finish:
  assumes q: "calm w1 w2"
  shows "calmCall w1
     (await (priv_startIfNecessary w2)
        (\<lambda>u w3. Return () (effect ReadyResolve (w3\<lparr>isReady := True, ready := True\<rparr>))))"
proof (rule calmCall_pre [OF q], rule calmCall_await)
  show "calmCall w2 (priv_startIfNecessary w2)" by (rule calmCall_startIfNecessary)
  show "calmCall w' (Return () (effect ReadyResolve (w'\<lparr>isReady := True, ready := True\<rparr>)))"
    for w' by (simp add: calmCall_Return calm_resolve)
qed

lemma calmCall_afterManagerReady: "calmCall w1 (afterManagerReady r w1)"
proof (cases r)
  case (Rejected err)
  then show ?thesis by (simp add: afterManagerReady_def calmCall_Throw)
next
  case (Resolved p)
  show ?thesis
  proof (cases "find (\<lambda>item. m_path item = cpath w1) (managerRunning w1)")
    case None
    then show ?thesis using Resolved calmCall_finish [of w1 w1]
      by (simp add: afterManagerReady_def)
  next
    case (Some model)
    show ?thesis
    proof (cases "connectTo w1 model")
      case (Inl err)
      then show ?thesis using Resolved Some
        by (simp add: afterManagerReady_def calmCall_Throw calm_handleSessionError)
    next
      case (Inr s)
      from handleNewSession_cases [of s w1] show ?thesis
      proof (elim disjE conjE exE)
        assume "priv_handleNewSession s w1 = Inl Disposed"
        then show ?thesis using Resolved Some Inr
          by (simp add: afterManagerReady_def calmCall_Throw calm_handleSessionError)
      next
        fix kconn
        assume "priv_handleNewSession s w1 = Inr (kconn, attached s w1)" "\<not> isDisposed w1"
        then show ?thesis using Resolved Some Inr calmCall_finish [OF calm_attached, of w1 s]
          by (simp add: afterManagerReady_def)
      qed
    qed
  qed
qed

lemma calmCall_initialize: "calmCall w (initialize w)"
  by (auto simp: initialize_def calm_initializing calmCall_afterManagerReady
      intro!: calmCall_Await calmCall_settle)

lemma calmCall_restartKernel: "calmCall w (restartKernel kconn w)"
proof -
  have "calmCall w1
          (case r of
            Resolved (PDialog accept model) \<Rightarrow>
              if k_isDisposed (kernelObj w1 kconn) then Return False w1
              else if accept then Await w1 (KernelRestart kconn) (settle True)
              else Return False w1
          | Resolved other \<Rightarrow> Throw IllTyped w1
          | Rejected err \<Rightarrow> Throw err w1)" for r w1
    by (auto simp: calmCall_Throw calmCall_Return intro!: calmCall_Await calmCall_settle
        split: Response.splits Payload.splits)
  then show ?thesis
    by (simp add: restartKernel_def calmCall_Await)
qed

lemma calmCall_changeKernel: "calmCall w (changeKernel options w)"
  unfolding changeKernel_def
  by (rule calmCall_await)
    (simp_all add: calmCall_initialize calmCall_Throw calmCall_changeKernel_priv)

lemma calmCall_selectKernel: "calmCall w (selectKernel w)"
  unfolding selectKernel_def
  by (rule calmCall_await)
    (simp_all add: calmCall_initialize calmCall_Throw calmCall_selectKernel_priv)

lemma calmCall_restart: "calmCall w (restart w)"
  unfolding restart_def
proof (rule calmCall_await)
  show "calmCall w (initialize w)" by (rule calmCall_initialize)
  fix u :: unit and w1
  have "calmCall w1
          (await (changeKernel \<lparr>km_id = None, km_name = prevKernelName w1\<rparr> w1)
             (\<lambda>kconn w2. Return True w2))"
    by (rule calmCall_await) (simp_all add: calmCall_changeKernel calmCall_Return)
  then show "calmCall w1
     (if isDisposed w1 then Throw SessionAlreadyDisposed w1
      else
        case sessionKernel w1 of
          Some kconn \<Rightarrow> restartKernel kconn w1
        | None \<Rightarrow>
            if truthy (prevKernelName w1) then
              await (changeKernel \<lparr>km_id = None, km_name = prevKernelName w1\<rparr> w1)
                (\<lambda>kconn w2. Return True w2)
            else Throw NoKernelToRestart w1)"
    by (simp add: calmCall_Throw calmCall_restartKernel split: option.splits)
qed

lemma calmCall_invoke: "calmCall w (invoke c w)"
  by (cases c)
    (simp_all add: calmCall_initialize calmCall_void calmCall_changeKernel
      calmCall_selectKernel calmCall_restart calmCall_shutdown)

section \<open>The trace of a system\<close>

lemma disposals_simps [simp]:
  "disposals [] = 0"
  "disposals (tr @ tr') = disposals tr + disposals tr'"
  "disposals (e # tr) = (if e = Emit DisposedSignal then 1 else 0) + disposals tr"
  by (simp_all add: disposals_def)

lemma internal_all_obs:
  "\<forall>e \<in> set es. internal e \<Longrightarrow>
   observed es = [] \<and> acquired es = [] \<and> released es = [] \<and> disposals es = 0"
proof (induction es)
  case Nil then show ?case by simp
next
  case (Cons e es)
  then have "internal e" by simp
  then show ?case using Cons by (cases e rule: internal.cases) simp_all
qed

lemma calm_obs:
  assumes "calm w w'"
  shows "observed (trace w') = observed (trace w) \<and> acquired (trace w') = acquired (trace w)
    \<and> released (trace w') = released (trace w) \<and> disposals (trace w') = disposals (trace w)"
proof -
  from assms obtain es where es: "trace w' = trace w @ es" "\<forall>e \<in> set es. internal e"
    by (auto simp: calm_def remains_def posthumous_internal split: if_splits)
  show ?thesis using internal_all_obs [OF es(2)] es(1) by simp
qed

lemma remains_obs:
  assumes "remains w w'"
  shows "observed (trace w') = observed (trace w) \<and> acquired (trace w') = acquired (trace w)
    \<and> released (trace w') = released (trace w) \<and> disposals (trace w') = disposals (trace w)"
proof -
  from assms obtain es where es: "trace w' = trace w @ es" "\<forall>e \<in> set es. internal e"
    by (auto simp: remains_def posthumous_internal)
  show ?thesis using internal_all_obs [OF es(2)] es(1) by simp
qed

lemma execute_Nil [simp]: "execute [] sys = sys"
  by (simp add: execute_def)

lemma execute_Cons [simp]: "execute (a # acts) sys = execute acts (perform a sys)"
  by (simp add: execute_def)

text \<open>The calls of a system stay calm, and a call or its continuation is a calm step.\<close>

lemma calmProc_perform:
  assumes "\<forall>p \<in> set (calls sys). calmProc p"
  shows "\<forall>p \<in> set (calls (perform a sys)). calmProc p"
proof (cases a)
  case (Invoke c)
  then show ?thesis using assms calmCall_invoke [of "world sys" c]
    by (auto simp: spawn_def calmCall_def)
next
  case (Resume i r)
  show ?thesis
  proof (cases "i < length (calls sys)")
    case False
    then show ?thesis using assms Resume by (simp add: resume_def)
  next
    case True
    then have c: "calmProc (calls sys ! i)" using assms by simp
    show ?thesis
    proof (cases "calls sys ! i")
      case (Await w q k)
      then have "calmProc (k r (world sys))"
        using c by (simp add: calmProc_Await calmCall_def)
      then show ?thesis using assms Resume True Await
        by (auto simp: resume_def Let_def dest: set_update_subset_insert [THEN subsetD])
    qed (use assms Resume True in \<open>simp_all add: resume_def\<close>)
  qed
qed (use assms in simp_all)

lemma calmProc_execute:
  "\<forall>p \<in> set (calls sys). calmProc p \<Longrightarrow> \<forall>p \<in> set (calls (execute acts sys)). calmProc p"
proof (induction acts arbitrary: sys)
  case (Cons a acts)
  then show ?case using calmProc_perform [of sys a] by simp
qed simp

lemma calmProc_reachable:
  "\<forall>p \<in> set (calls (execute acts (start options uuid env))). calmProc p"
  by (rule calmProc_execute) (simp add: start_def)

lemma calm_invoke: "calm (world sys) (world (perform (Invoke c) sys))"
  using calmCall_invoke [of "world sys" c] by (simp add: spawn_def calmCall_def calmStep_def)

lemma calm_resume:
  assumes "\<forall>p \<in> set (calls sys). calmProc p"
  shows "calm (world sys) (world (perform (Resume i r) sys))"
proof (cases "i < length (calls sys)")
  case False
  then show ?thesis by (simp add: resume_def)
next
  case True
  then have c: "calmProc (calls sys ! i)" using assms by simp
  show ?thesis
  proof (cases "calls sys ! i")
    case (Await w q k)
    then have "calm (world sys) (stateOf (k r (world sys)))"
      using c by (simp add: calmProc_Await calmCall_def calmStep_def)
    then show ?thesis using True Await by (simp add: resume_def Let_def)
  qed (use True in \<open>simp_all add: resume_def\<close>)
qed

text \<open>What the slots and \<^verbatim>\<open>dispose\<close> do to the trace.\<close>

lemma deliver_obs:
  "observed (trace (deliver s ev w)) = observed (trace w) @ notified (Emits s ev) w
   \<and> disposals (trace (deliver s ev w)) = disposals (trace w)
   \<and> isDisposed (deliver s ev w) = isDisposed w"
proof (cases "(s, channelOf ev) \<in> set (slots w)")
  case False
  then show ?thesis by (cases ev) (simp_all add: deliver_def)
next
  case True
  then show ?thesis
    by (cases ev)
      (auto simp: deliver_def priv_onSessionDisposed_def priv_onKernelChanged_def
        priv_onStatusChanged_def priv_onConnectionStatusChanged_def priv_onIopubMessage_def
        priv_onUnhandledMessage_def callSetBusy_def Let_def split: option.splits)
qed

lemma dispose_obs:
  "observed (trace (dispose w)) = observed (trace w)
   \<and> disposals (trace (dispose w)) = disposals (trace w) + (if isDisposed w then 0 else 1)"
proof (cases "isDisposed w")
  case True
  then show ?thesis by (simp add: dispose_def)
next
  case False
  then show ?thesis by (simp add: dispose_trace split: option.splits)
qed

text \<open>
  The statuses the context has re-emitted are those delivered to it, and the disposal
  notification was emitted once if the context is disposed and never otherwise.
\<close>

lemma observed_perform:
  assumes "\<forall>p \<in> set (calls sys). calmProc p"
  shows "observed (trace (world (perform a sys)))
         = observed (trace (world sys)) @ notified a (world sys)
     \<and> disposals (trace (world (perform a sys))) - (if isDisposed (world (perform a sys)) then 1 else 0)
         = disposals (trace (world sys)) - (if isDisposed (world sys) then 1 else 0)
     \<and> (disposals (trace (world sys)) = (if isDisposed (world sys) then 1 else 0) \<longrightarrow>
          disposals (trace (world (perform a sys)))
          = (if isDisposed (world (perform a sys)) then 1 else 0))"
proof (cases a)
  case (Invoke c)
  show ?thesis
    using calm_obs [OF calm_invoke [of sys c]] calm_disposed [OF calm_invoke [of sys c]] Invoke
    by simp
next
  case (Resume i r)
  show ?thesis
    using calm_obs [OF calm_resume [OF assms, of i r]]
      calm_disposed [OF calm_resume [OF assms, of i r]] Resume
    by simp
next
  case (Emits s ev)
  then show ?thesis using deliver_obs [of s ev "world sys"] by simp
next
  case Disposes
  then show ?thesis using dispose_obs [of "world sys"] dispose_disposed [of "world sys"]
    by simp
qed simp_all

lemma observed_execute:
  assumes "\<forall>p \<in> set (calls sys). calmProc p"
  shows "observed (trace (world (execute acts sys)))
         = observed (trace (world sys)) @ statuses acts sys"
  using assms
proof (induction acts arbitrary: sys)
  case (Cons a acts)
  have c: "\<forall>p \<in> set (calls (perform a sys)). calmProc p"
    by (rule calmProc_perform [OF Cons.prems])
  show ?case using Cons.IH [OF c] observed_perform [OF Cons.prems, of a] by simp
qed simp

lemma observed_reachable:
  "observed (trace (world (execute acts (start options uuid env))))
   = statuses acts (start options uuid env)"
  using observed_execute [of "start options uuid env" acts]
  by (simp add: start_def construct_def)

lemma disposals_execute:
  assumes "\<forall>p \<in> set (calls sys). calmProc p"
    and "disposals (trace (world sys)) = (if isDisposed (world sys) then 1 else 0)"
  shows "disposals (trace (world (execute acts sys)))
         = (if isDisposed (world (execute acts sys)) then 1 else 0)"
  using assms
proof (induction acts arbitrary: sys)
  case (Cons a acts)
  have c: "\<forall>p \<in> set (calls (perform a sys)). calmProc p"
    by (rule calmProc_perform [OF Cons.prems(1)])
  have d: "disposals (trace (world (perform a sys)))
           = (if isDisposed (world (perform a sys)) then 1 else 0)"
    using observed_perform [OF Cons.prems(1), of a] Cons.prems(2) by blast
  show ?case using Cons.IH [OF c d] by simp
qed simp

lemma disposals_reachable:
  "disposals (trace (world (execute acts (start options uuid env))))
   = (if isDisposed (world (execute acts (start options uuid env))) then 1 else 0)"
  by (rule disposals_execute) (simp_all add: start_def construct_def)

section \<open>After the disposal\<close>

lemma remains_perform:
  assumes w: "wellRun sys" and c: "\<forall>p \<in> set (calls sys). calmProc p"
    and d: "isDisposed (world sys)"
  shows "remains (world sys) (world (perform a sys))"
proof (cases a)
  case (Invoke c)
  then show ?thesis using calm_invoke [of sys c] d by (simp add: calm_def)
next
  case (Resume i r)
  then show ?thesis using calm_resume [OF c, of i r] d by (simp add: calm_def)
next
  case (Emits s ev)
  have "slots (world sys) = []" using w d by (simp add: wellRun_def consistent_def)
  then show ?thesis using Emits d by (simp add: deliver_def remains_refl)
next
  case Disposes
  then show ?thesis using d by (simp add: dispose_def remains_refl)
next
  case (SetsPreference p)
  then show ?thesis using d by (simp add: remains_def)
next
  case (Service so ko rn ct sp)
  then show ?thesis using d by (simp add: remains_def)
qed

lemma remains_execute:
  assumes "wellRun sys" "\<forall>p \<in> set (calls sys). calmProc p" "isDisposed (world sys)"
  shows "remains (world sys) (world (execute acts sys))"
  using assms
proof (induction acts arbitrary: sys)
  case Nil
  then show ?case by (simp add: remains_refl)
next
  case (Cons a acts)
  have r: "remains (world sys) (world (perform a sys))"
    by (rule remains_perform [OF Cons.prems])
  have "remains (world (perform a sys)) (world (execute acts (perform a sys)))"
  proof (rule Cons.IH)
    show "wellRun (perform a sys)" using wellRun_perform [OF Cons.prems(1)] by simp
    show "\<forall>p \<in> set (calls (perform a sys)). calmProc p"
      by (rule calmProc_perform [OF Cons.prems(2)])
    show "isDisposed (world (perform a sys))" using r by (simp add: remains_def)
  qed
  then show ?case using r remains_trans by auto
qed

section \<open>Callers that wait on the ready promise\<close>



lemma ended_requested: "ended p = (requested p = [])"
  by (cases p) simp_all





section \<open>Properties of the session context\<close>




text \<open>
  C2, as stated, fails: when \<^verbatim>\<open>manager.connectTo\<close> throws, \<^verbatim>\<open>initialize()\<close>
  returns the rejection from its \<^verbatim>\<open>catch\<close> block, before the two statements that
  set \<^verbatim>\<open>_isReady\<close> and resolve \<^verbatim>\<open>_ready\<close>. The call is rejected, the
  context stays initializing and not ready, and the ready promise is never resolved.
\<close>

theorem attach_failure_leaves_unready:
  "rejection (calls notebookAttachFailed ! 0) = Some (ResponseError ''500'')
   \<and> \<not> isReady (world notebookAttachFailed) \<and> \<not> ready (world notebookAttachFailed)
   \<and> resolves (trace (world notebookAttachFailed)) = 0
   \<and> initializing (world notebookAttachFailed)"
  by code_simp

text \<open>
  C2, amended. In every state the context can reach, \<^verbatim>\<open>this._ready\<close> has been
  resolved once if \<^verbatim>\<open>_isReady\<close> is set and never otherwise; a call of
  \<^verbatim>\<open>initialize()\<close> is fulfilled only in a state where \<^verbatim>\<open>_isReady\<close> is set.
  When attaching to the running session fails (\<^verbatim>\<open>connectTo\<close> or
  \<^verbatim>\<open>_handleNewSession\<close> throws), the call that started the startup is rejected with
  that error, and \<^verbatim>\<open>_isReady\<close> and the ready promise are left as they were. Every
  other call of \<^verbatim>\<open>initialize()\<close> returns the ready promise, which is only ever
  fulfilled, never rejected; after a failed attach it stays pending.
\<close>

theorem ready_resolved_once:
  assumes "w = world (execute acts (start options uuid env))"
  shows "resolves (trace w) = (if isReady w then 1 else 0) \<and> ready w = isReady w
     \<and> fulfilsReady (initialize w)
     \<and> (\<not> started w \<longrightarrow>
          initialize w = Await (w\<lparr>initializing := True\<rparr>) ManagerReady afterManagerReady)
     \<and> (\<forall>p model err.
          find (\<lambda>item. m_path item = cpath w) (managerRunning w) = Some model
          \<and> (connectTo w model = Inl err
              \<or> (\<exists>s. connectTo w model = Inr s \<and> priv_handleNewSession s w = Inl err))
          \<longrightarrow> afterManagerReady (Resolved p) w = Throw err (priv_handleSessionError err w)
              \<and> isReady (priv_handleSessionError err w) = isReady w
              \<and> ready (priv_handleSessionError err w) = ready w
              \<and> resolves (trace (priv_handleSessionError err w)) = resolves (trace w))
     \<and> (started w \<longrightarrow> initialize w = Await w ReadyPromise (settle ()))
     \<and> (\<forall>r. answers w ReadyPromise r \<longrightarrow> isReady w \<and> r = Resolved PUnit)"
proof -
  have wr: "wellRun (execute acts (start options uuid env))" by (rule wellRun_reachable)
  then have a: "resolves (trace w) = (if isReady w then 1 else 0)" "ready w = isReady w"
    using assms by (simp_all add: wellRun_def)
  have b: "isReady (priv_handleSessionError err w) = isReady w
     \<and> ready (priv_handleSessionError err w) = ready w
     \<and> resolves (trace (priv_handleSessionError err w)) = resolves (trace w)" for err
    by (simp add: priv_handleSessionError_def)
  show ?thesis
    using a b attach_failure [of w] fulfilsReady_initialize [of w] initialize_first [of w]
      initialize_joined [of w]
    by auto
qed

theorem ready_resolved_once_witness:
  "find (\<lambda>item. m_path item = cpath (world notebookAttachFailed))
     (managerRunning (world notebookAttachFailed)) = Some model0
   \<and> connectTo (world notebookAttachFailed) model0 = Inl (ResponseError ''500'')
   \<and> started (world notebookAttachFailed)
   \<and> rejection (afterManagerReady (Resolved PUnit) (world notebookAttachFailed))
       = Some (ResponseError ''500'')
   \<and> resolves (trace (world notebookAttachFailed)) = 0
   \<and> initialize (world notebookAttachFailed)
       = Await (world notebookAttachFailed) ReadyPromise (settle ())
   \<and> \<not> answers (world notebookAttachFailed) ReadyPromise (Resolved PUnit)"
proof -
  have h: "find (\<lambda>item. m_path item = cpath (world notebookAttachFailed))
     (managerRunning (world notebookAttachFailed)) = Some model0"
    "connectTo (world notebookAttachFailed) model0 = Inl (ResponseError ''500'')"
    "started (world notebookAttachFailed)" "\<not> isReady (world notebookAttachFailed)"
    by code_simp+
  show ?thesis
    using h ready_resolved_once [of "world notebookAttachFailed"
        "[Invoke Initialize, Resume 0 (Resolved PUnit)]" options0 "''uuid''"
        "env0\<lparr>connectTo := (\<lambda>m. Inl (ResponseError ''500''))\<rparr>"]
    by (auto simp: notebookAttachFailed_def notebookUnreachable_def)
qed

text \<open>
  C6, as stated, fails in its last part: state does change after the first call of
  \<^verbatim>\<open>dispose()\<close>. \<^verbatim>\<open>initialize()\<close> does not test \<^verbatim>\<open>isDisposed\<close>:
  called on a disposed context it sets \<^verbatim>\<open>_initializing\<close>, waits for
  \<^verbatim>\<open>manager.ready\<close>, and, there being no running session at its path, sets
  \<^verbatim>\<open>_isReady\<close> and resolves \<^verbatim>\<open>this._ready\<close>.
\<close>

theorem initialize_after_dispose_mutates:
  "isDisposed (world notebookDisposed)
   \<and> \<not> initializing (world notebookDisposed) \<and> \<not> isReady (world notebookDisposed)
   \<and> \<not> ready (world notebookDisposed)
   \<and> trace (world notebookDisposed) = [Emit DisposedSignal, ClearData]
   \<and> isDisposed (world notebookDisposedInitialized)
   \<and> initializing (world notebookDisposedInitialized)
   \<and> isReady (world notebookDisposedInitialized)
   \<and> ready (world notebookDisposedInitialized)
   \<and> trace (world notebookDisposedInitialized) = [Emit DisposedSignal, ClearData, ReadyResolve]
   \<and> fulfilled (calls notebookDisposedInitialized ! 0)"
  by code_simp

text \<open>
  C6, amended. \<^verbatim>\<open>dispose()\<close> is idempotent: calling it again, any number of
  times, gives the state of the first call, trace included; over all the calls the
  disposal notification is emitted once and the lease held at the first call, if there is
  one, is released once, and after the first call \<^verbatim>\<open>_busyDisposable\<close> is
  \<^verbatim>\<open>null\<close>. In every state the context can reach the disposal notification
  was emitted once if the context is disposed and never otherwise. Once the context is
  disposed, whatever is called or happens afterwards: it stays disposed, without session
  connection, slot or lease; its path, name, type and previous kernel name stay as they
  are; no lease is acquired or released and nothing is emitted, the only effects being that
  \<^verbatim>\<open>this._ready\<close> is resolved, an error reported or a dialog disposed. The fields
  \<^verbatim>\<open>_initializing\<close>, \<^verbatim>\<open>_isReady\<close>, \<^verbatim>\<open>_dialog\<close> and
  \<^verbatim>\<open>_kernelPreference\<close> can still change.
\<close>

theorem dispose_idempotent:
  assumes "sys = execute acts (start options uuid env)"
  shows "(dispose ^^ Suc n) w = dispose w
     \<and> isDisposed (dispose w)
     \<and> count_list (trace ((dispose ^^ Suc n) w)) (Emit DisposedSignal) =
         count_list (trace w) (Emit DisposedSignal) + (if isDisposed w then 0 else 1)
     \<and> count_list (trace ((dispose ^^ Suc n) w)) (LeaseDispose d) =
         count_list (trace w) (LeaseDispose d)
         + (if \<not> isDisposed w \<and> busyDisposable w = Some d then 1 else 0)
     \<and> (\<not> isDisposed w \<longrightarrow> busyDisposable (dispose w) = None)
     \<and> disposals (trace (world sys)) = (if isDisposed (world sys) then 1 else 0)
     \<and> (isDisposed (world sys) \<longrightarrow>
          remains (world sys) (world (execute later sys))
          \<and> session (world (execute later sys)) = None
          \<and> slots (world (execute later sys)) = []
          \<and> busyDisposable (world (execute later sys)) = None
          \<and> disposals (trace (world (execute later sys))) = 1
          \<and> acquired (trace (world (execute later sys))) = acquired (trace (world sys))
          \<and> released (trace (world (execute later sys))) = released (trace (world sys))
          \<and> observed (trace (world (execute later sys))) = observed (trace (world sys)))"
proof -
  have a: "(dispose ^^ Suc n) w = dispose w
     \<and> isDisposed (dispose w)
     \<and> count_list (trace ((dispose ^^ Suc n) w)) (Emit DisposedSignal) =
         count_list (trace w) (Emit DisposedSignal) + (if isDisposed w then 0 else 1)
     \<and> count_list (trace ((dispose ^^ Suc n) w)) (LeaseDispose d) =
         count_list (trace w) (LeaseDispose d)
         + (if \<not> isDisposed w \<and> busyDisposable w = Some d then 1 else 0)
     \<and> (\<not> isDisposed w \<longrightarrow> busyDisposable (dispose w) = None)"
  proof (cases "isDisposed w")
    case True
    then have "dispose w = w" by (simp add: dispose_def)
    then show ?thesis using True dispose_funpow [of n w] by simp
  next
    case False
    then show ?thesis
      using dispose_funpow [of n w] dispose_disposed [of w] dispose_state [of w]
      by (simp add: dispose_trace split: option.splits)
  qed
  have wr: "wellRun sys" using assms by (simp add: wellRun_reachable)
  have cp: "\<forall>p \<in> set (calls sys). calmProc p" using assms by (simp add: calmProc_reachable)
  have b: "disposals (trace (world sys)) = (if isDisposed (world sys) then 1 else 0)"
    using assms by (simp add: disposals_reachable)
  have c: "remains (world sys) (world (execute later sys))
          \<and> session (world (execute later sys)) = None
          \<and> slots (world (execute later sys)) = []
          \<and> busyDisposable (world (execute later sys)) = None
          \<and> disposals (trace (world (execute later sys))) = 1
          \<and> acquired (trace (world (execute later sys))) = acquired (trace (world sys))
          \<and> released (trace (world (execute later sys))) = released (trace (world sys))
          \<and> observed (trace (world (execute later sys))) = observed (trace (world sys))"
    if d: "isDisposed (world sys)"
  proof -
    have r: "remains (world sys) (world (execute later sys))"
      by (rule remains_execute [OF wr cp d])
    have s: "session (world sys) = None \<and> slots (world sys) = []
       \<and> busyDisposable (world sys) = None"
      using wr d by (simp add: wellRun_def consistent_def)
    show ?thesis using r s b d remains_obs [OF r] by (simp add: remains_def)
  qed
  show ?thesis using a b c by blast
qed

theorem dispose_idempotent_witness:
  "isDisposed (world (execute busyThenDisposed notebook))
   \<and> disposals (trace (world (execute busyThenDisposed notebook))) = 1
   \<and> released (trace (world (execute busyThenDisposed notebook))) = [0]
   \<and> isDisposed (world (execute afterwards (execute busyThenDisposed notebook)))
   \<and> session (world (execute afterwards (execute busyThenDisposed notebook))) = None
   \<and> busyDisposable (world (execute afterwards (execute busyThenDisposed notebook))) = None
   \<and> disposals (trace (world (execute afterwards (execute busyThenDisposed notebook)))) = 1
   \<and> acquired (trace (world (execute afterwards (execute busyThenDisposed notebook)))) = [0]
   \<and> released (trace (world (execute afterwards (execute busyThenDisposed notebook)))) = [0]
   \<and> (dispose ^^ Suc (Suc (Suc 0))) (world notebookReady) = dispose (world notebookReady)"
proof -
  have h: "isDisposed (world (execute busyThenDisposed notebook))"
    "acquired (trace (world (execute busyThenDisposed notebook))) = [0]"
    "released (trace (world (execute busyThenDisposed notebook))) = [0]"
    by code_simp+
  show ?thesis
    using h dispose_idempotent [of "execute busyThenDisposed notebook" busyThenDisposed
        options0 "''uuid''" env0 "Suc (Suc 0)" "world notebookReady" 0 afterwards]
    by (auto simp: notebook_def remains_def simp del: funpow.simps)
qed

text \<open>
  C7. Take a context made with a busy-lease factory (\<^verbatim>\<open>setBusy\<close>), and any sequence
  of actions on it: status changes and other signals of its session connections, calls of
  \<^verbatim>\<open>dispose\<close> and of the other methods, answers to pending calls. The statuses
  that count are those of \<open>statuses\<close>: what session connections emitted on
  \<^verbatim>\<open>statusChanged\<close> while the context was connected to it. Afterwards the lease is
  held if and only if the last of these statuses is \<^verbatim>\<open>busy\<close> and the context
  is not disposed; so a lease held is released by the first status change away from
  \<^verbatim>\<open>busy\<close> or by the disposal, whichever comes first. The context has re-emitted
  exactly these statuses. The leases acquired so far are the leases released so far, in
  the same order, followed by the lease held, if any, and they are distinct: at most one
  lease is outstanding, and each lease is released once. After \<^verbatim>\<open>dispose\<close> no
  status change reaches the context: its session connection is disposed and
  \<^verbatim>\<open>Signal.clearData\<close> has removed its slots.
\<close>

theorem busy_lease_follows_status:
  assumes "o_setBusy options"
  shows "let sys = start options uuid env; w = world (execute acts sys);
             seen = statuses acts sys in
           (busyDisposable w \<noteq> None) = (seen \<noteq> [] \<and> last seen = Busy \<and> \<not> isDisposed w)
           \<and> observed (trace w) = seen
           \<and> acquired (trace w) = released (trace w) @ held w
           \<and> distinct (acquired (trace w))
           \<and> length (held w) \<le> 1"
proof -
  let ?w = "world (execute acts (start options uuid env))"
  have c: "consistent ?w" using wellRun_reachable [of acts options uuid env]
    by (simp add: wellRun_def)
  have s: "setBusy ?w" using assms by (simp add: setBusy_reachable)
  have o: "observed (trace ?w) = statuses acts (start options uuid env)"
    by (rule observed_reachable)
  have l: "(lastStatus (trace ?w) = Some Busy)
     = (statuses acts (start options uuid env) \<noteq> []
        \<and> last (statuses acts (start options uuid env)) = Busy)"
    using o by (simp add: lastStatus_def)
  note p = consistent_lease [OF c s]
  have p1: "(busyDisposable ?w \<noteq> None)
     = (statuses acts (start options uuid env) \<noteq> []
        \<and> last (statuses acts (start options uuid env)) = Busy \<and> \<not> isDisposed ?w)"
    using p l by blast
  have p2: "acquired (trace ?w) = released (trace ?w) @ held ?w" using p by blast
  have p3: "distinct (acquired (trace ?w))" using p by blast
  have p4: "length (held ?w) \<le> 1" using p by blast
  show ?thesis unfolding Let_def using p1 o p2 p3 p4 by blast
qed

theorem busy_lease_follows_status_witness:
  "o_setBusy options0
   \<and> (let w = world (execute busyThenIdle notebook) in
        statuses busyThenIdle notebook = [Busy, Idle]
        \<and> busyDisposable w = None \<and> \<not> isDisposed w
        \<and> acquired (trace w) = [0] \<and> released (trace w) = [0])
   \<and> (let w = world (execute busyThenDisposed notebook) in
        statuses busyThenDisposed notebook = [Busy]
        \<and> busyDisposable w = None \<and> isDisposed w
        \<and> acquired (trace w) = [0] \<and> released (trace w) = [0])"
proof -
  have h: "o_setBusy options0" by (simp add: options0_def)
  have e: "statuses busyThenIdle notebook = [Busy, Idle]"
    "\<not> isDisposed (world (execute busyThenIdle notebook))"
    "acquired (trace (world (execute busyThenIdle notebook))) = [0]"
    "statuses busyThenDisposed notebook = [Busy]"
    "isDisposed (world (execute busyThenDisposed notebook))"
    "acquired (trace (world (execute busyThenDisposed notebook))) = [0]"
    by code_simp+
  have a: "busyDisposable (world (execute busyThenIdle notebook)) = None
     \<and> released (trace (world (execute busyThenIdle notebook))) = [0]"
    using e busy_lease_follows_status [OF h, of "''uuid''" env0 busyThenIdle]
    by (auto simp: Let_def held_def notebook_def split: option.splits)
  have b: "busyDisposable (world (execute busyThenDisposed notebook)) = None
     \<and> released (trace (world (execute busyThenDisposed notebook))) = [0]"
    using e busy_lease_follows_status [OF h, of "''uuid''" env0 busyThenDisposed]
    by (auto simp: Let_def held_def notebook_def split: option.splits)
  show ?thesis using h e a b by (simp add: Let_def)
qed

text \<open>
  C8. \<^verbatim>\<open>restart()\<close> on a context that is ready and not disposed, whose session
  connection has lost its kernel, while the name of the previous kernel,
  \<^verbatim>\<open>python3\<close>, is recorded: there is no live kernel, so \<^verbatim>\<open>restart\<close> takes
  its fallback and calls \<^verbatim>\<open>changeKernel\<close>, and \<^verbatim>\<open>_changeKernel\<close> reads
  \<^verbatim>\<open>session.kernel.status\<close> of the session that has no kernel. The call is rejected
  with a \<^verbatim>\<open>TypeError\<close>, and no session was asked to start.
\<close>

theorem restart_without_kernel_faults:
  "isReady (world notebookKernelLost) \<and> \<not> isDisposed (world notebookKernelLost)
   \<and> session (world notebookKernelLost) = Some 0
   \<and> sessionKernel (world notebookKernelLost) = None
   \<and> prevKernelName (world notebookKernelLost) = Some ''python3''
   \<and> rejection (calls notebookRestarted ! 1) = Some TypeError
   \<and> startRequests notebookRestarted = []"
  by code_simp

text \<open>
  When the context has no session connection, \<^verbatim>\<open>restart()\<close> does what C8 says: it
  asks the session service for a session with the recorded kernel name and is fulfilled
  with \<^verbatim>\<open>true\<close> when the session has started (and rejected with the error of the
  service when it has not); without a recorded name it is rejected with
  \<^verbatim>\<open>No kernel to restart\<close>.
\<close>

lemma restart_starts_previous_kernel:
  assumes "started w" "\<not> isDisposed w" "session w = None" "truthy (prevKernelName w)"
  shows "run (restart w) [Resolved PUnit, Resolved PUnit, Resolved PUnit, Resolved PUnit] =
           Pending
             (StartNew \<lparr>so_path = cpath w, so_type = ctype w, so_name = cname w,
                        so_kernel = \<lparr>km_id = None, km_name = prevKernelName w\<rparr>\<rparr>) w"
    and "run (restart w)
           [Resolved PUnit, Resolved PUnit, Resolved PUnit, Resolved PUnit,
            Resolved (PSession s), Resolved PUnit] =
           Fulfilled True (attached s w)"
    and "run (restart w)
           [Resolved PUnit, Resolved PUnit, Resolved PUnit, Resolved PUnit,
            Rejected err, Resolved PUnit] =
           RejectedWith err (priv_handleSessionError err w)"
  using assms
  by (simp_all add: restart_def changeKernel_def initialize_joined await_def settle_def
      sessionKernel_def priv_changeKernel_def priv_startSession_def handleNewSession_Inr)

lemma restart_without_previous_kernel:
  assumes "started w" "\<not> isDisposed w" "sessionKernel w = None" "\<not> truthy (prevKernelName w)"
  shows "run (restart w) [Resolved PUnit, Resolved PUnit] = RejectedWith NoKernelToRestart w"
  using assms
  by (simp add: restart_def initialize_joined await_def settle_def)

text \<open>
  C9. In any state the context can reach, only the current session connection has slots
  connected, so an event of any other connection is not delivered. When
  \<^verbatim>\<open>_handleNewSession\<close> replaces the current connection by \<open>s\<close>, it first
  disposes the outgoing connection, which disconnects the slots from its signals, then
  connects the slots to the signals of \<open>s\<close>, re-emits the properties that differ, and last
  emits \<^verbatim>\<open>kernelChanged\<close> with \<^verbatim>\<open>oldValue: null\<close>; afterwards the outgoing
  connection is disposed and its events change nothing.
\<close>

theorem replacement_detaches_first:
  assumes "w = world (execute acts (start options uuid env))"
  shows "(\<forall>other ev. session w \<noteq> Some other \<longrightarrow> deliver other ev w = w)
     \<and> (\<not> isDisposed w \<longrightarrow>
          priv_handleNewSession s w = Inr (s_kernel (sessionObj (attached s w) s), attached s w)
          \<and> trace (attached s w) =
              trace w
              @ (case session w of Some old \<Rightarrow> [SessionDispose old] | None \<Rightarrow> [])
              @ map (ConnectSlot s) sessionChannels
              @ map (\<lambda>p. Emit (PropertyChanged p)) (changedProperties s w)
              @ [Emit (KernelChanged None (s_kernel (sessionObj (attached s w) s)))]
          \<and> session (attached s w) = Some s
          \<and> set (slots (attached s w)) = Pair s ` set sessionChannels
          \<and> (\<forall>old ev. session w = Some old \<and> old \<noteq> s \<longrightarrow>
                s_isDisposed (sessionObj (attached s w) old)
                \<and> deliver old ev (attached s w) = attached s w))"
proof -
  have c: "consistent w" using assms wellRun_reachable [of acts options uuid env]
    by (simp add: wellRun_def)
  have a: "\<forall>other ev. session w \<noteq> Some other \<longrightarrow> deliver other ev w = w"
    using c by (simp add: consistent_deliver_other)
  have b: "priv_handleNewSession s w = Inr (s_kernel (sessionObj (attached s w) s), attached s w)
          \<and> trace (attached s w) =
              trace w
              @ (case session w of Some old \<Rightarrow> [SessionDispose old] | None \<Rightarrow> [])
              @ map (ConnectSlot s) sessionChannels
              @ map (\<lambda>p. Emit (PropertyChanged p)) (changedProperties s w)
              @ [Emit (KernelChanged None (s_kernel (sessionObj (attached s w) s)))]
          \<and> session (attached s w) = Some s
          \<and> set (slots (attached s w)) = Pair s ` set sessionChannels
          \<and> (\<forall>old ev. session w = Some old \<and> old \<noteq> s \<longrightarrow>
                s_isDisposed (sessionObj (attached s w) old)
                \<and> deliver old ev (attached s w) = attached s w)" if nd: "\<not> isDisposed w"
  proof -
    have q: "consistent (attached s w)"
      using quiet_attached [OF nd, of s] c by (simp add: quiet_def)
    from c have "\<forall>c \<in> set (slots w). session w = Some (fst c)"
      by (simp add: consistent_def)
    then have e: "{c \<in> set (slots w). session w \<noteq> Some (fst c)} = {}"
      by blast
    have sl: "set (slots (attached s w)) = Pair s ` set sessionChannels"
      by (simp only: attached_fields(11) [OF nd] e Un_empty_left)
    have d: "s_isDisposed (sessionObj (attached s w) old)" if "session w = Some old" for old
      using nd that
      by (simp add: attached_def priv_handleNewSession_def Let_def sessionObj_sessionDispose)
    show ?thesis
      using handleNewSession_Inr [OF nd, of s] attached_trace [OF nd, of s]
        attached_fields(1) [OF nd, of s] sl d consistent_deliver_other [OF q]
      by simp
  qed
  show ?thesis using a b by blast
qed

theorem replacement_detaches_first_witness:
  "(let w = world (execute
              [Invoke Initialize, Resume 0 (Resolved PUnit), Resume 0 (Resolved PUnit)]
              (start options0 ''uuid'' env0))
    in session w = Some 0 \<and> \<not> isDisposed w
       \<and> trace (attached 1 w) =
            trace w @ [SessionDispose 0] @ map (ConnectSlot 1) sessionChannels
            @ [Emit (KernelChanged None (Some 0))]
       \<and> deliver 0 (EvStatusChanged Busy) (attached 1 w) = attached 1 w)"
proof -
  let ?w = "world (execute
              [Invoke Initialize, Resume 0 (Resolved PUnit), Resume 0 (Resolved PUnit)]
              (start options0 ''uuid'' env0))"
  have h: "session ?w = Some 0" "\<not> isDisposed ?w" "changedProperties 1 ?w = []"
    "s_kernel (sessionObj (attached 1 ?w) 1) = Some 0"
    by code_simp+
  show ?thesis
    using h replacement_detaches_first [OF refl, of
        "[Invoke Initialize, Resume 0 (Resolved PUnit), Resume 0 (Resolved PUnit)]"
        options0 "''uuid''" env0 1]
    by (simp add: Let_def)
qed

text \<open>
  C10. \<^verbatim>\<open>_changeKernel\<close> reads \<^verbatim>\<open>session.kernel.status\<close> without a guard.
  The read faults (a \<^verbatim>\<open>TypeError\<close>) exactly when the context is not disposed and
  its current session connection has no kernel. So if every retained session connection
  has a kernel (or there is none), no call of \<^verbatim>\<open>_changeKernel\<close> faults, from
  \<^verbatim>\<open>changeKernel()\<close>, from the fallback of \<^verbatim>\<open>restart()\<close> or from the
  startup: all three reach the read through \<^verbatim>\<open>_changeKernel\<close> only.
\<close>

theorem changeKernel_faults_iff:
  "(\<exists>w'. priv_changeKernel options w = Throw TypeError w')
   \<longleftrightarrow> \<not> isDisposed w \<and> (\<exists>s. session w = Some s \<and> s_kernel (sessionObj w s) = None)"
  by (auto simp: priv_changeKernel_def priv_startSession_def split: option.splits)

theorem changeKernel_faults_iff_witness:
  "(let w = world (execute
              [Invoke Initialize, Resume 0 (Resolved PUnit), Resume 0 (Resolved PUnit)]
              (start options0 ''uuid'' env0));
        options = \<lparr>km_id = None, km_name = Some ''ir''\<rparr>
    in session w = Some 0 \<and> s_kernel (sessionObj w 0) = Some 0
       \<and> \<not> (\<exists>w'. priv_changeKernel options w = Throw TypeError w'))"
proof -
  let ?w = "world (execute
              [Invoke Initialize, Resume 0 (Resolved PUnit), Resume 0 (Resolved PUnit)]
              (start options0 ''uuid'' env0))"
  have h: "session ?w = Some 0" "s_kernel (sessionObj ?w 0) = Some 0"
    by code_simp+
  show ?thesis
    using h changeKernel_faults_iff [of "\<lparr>km_id = None, km_name = Some ''ir''\<rparr>" ?w]
    by (simp add: Let_def)
qed

end
